theory Spec2Isabelle
  imports Main "HOL-Library.Word"
begin

section \<open>The eth subprotocol of p2p/eth.py\<close>

text \<open>
  The module declares twelve command classes, each with a wire identifier \<open>_cmd_id\<close> and a
  \<open>structure\<close> built from the sedes of the rlp library, the protocol class \<open>ETHProtocol\<close>
  with its registry \<open>_commands\<close> and \<open>cmd_length\<close>, and one send operation per outgoing
  message.  Names of the source that start with an underscore lose it here.
\<close>

subsection \<open>Fetch ceilings\<close>

definition MAX_STATE_FETCH :: int where "MAX_STATE_FETCH = 384"
definition MAX_BODIES_FETCH :: int where "MAX_BODIES_FETCH = 128"
definition MAX_RECEIPTS_FETCH :: int where "MAX_RECEIPTS_FETCH = 256"
definition MAX_HEADERS_FETCH :: int where "MAX_HEADERS_FETCH = 192"

subsection \<open>Command classes and the registry\<close>

datatype command =
    Status | NewBlockHashes | Transactions | GetBlockHeaders | BlockHeaders
  | GetBlockBodies | BlockBodies | NewBlock | GetNodeData | NodeData
  | GetReceipts | Receipts

text \<open>The class attribute \<open>_cmd_id\<close> of each command class.\<close>

fun cmd_id :: "command \<Rightarrow> int" where
  "cmd_id Status = 0"
| "cmd_id NewBlockHashes = 1"
| "cmd_id Transactions = 2"
| "cmd_id GetBlockHeaders = 3"
| "cmd_id BlockHeaders = 4"
| "cmd_id GetBlockBodies = 5"
| "cmd_id BlockBodies = 6"
| "cmd_id NewBlock = 7"
| "cmd_id GetNodeData = 13"
| "cmd_id NodeData = 14"
| "cmd_id GetReceipts = 15"
| "cmd_id Receipts = 16"

text \<open>\<open>ETHProtocol.version\<close>, \<open>ETHProtocol._commands\<close> (with \<open>BlockHeaders\<close> listed twice, as in
  the source) and \<open>ETHProtocol.cmd_length\<close>.\<close>

definition version :: int where "version = 63"

definition commands :: "command list" where
  "commands =
     [Status, NewBlockHashes, Transactions, GetBlockHeaders, BlockHeaders, BlockHeaders,
      GetBlockBodies, BlockBodies, NewBlock, GetNodeData, NodeData,
      GetReceipts, Receipts]"

definition cmd_length :: int where "cmd_length = 17"

section \<open>The codec: RLP items and their byte encoding\<close>

type_synonym byte = "8 word"
type_synonym bytes = "byte list"

datatype error = ValueError string | SchemaMismatch | TypeError

datatype item = Str bytes | Lst "item list"

fun be_digits :: "nat \<Rightarrow> bytes" where
  "be_digits n = (if n = 0 then [] else be_digits (n div 256) @ [of_nat (n mod 256)])"

declare be_digits.simps [simp del]

definition big_endian_to_int :: "bytes \<Rightarrow> nat" where
  "big_endian_to_int bs = foldl (\<lambda>a b. a * 256 + unat b) 0 bs"

definition length_overflow :: error where
  "length_overflow = ValueError ''Length greater than 256**8''"

definition length_prefix :: "nat \<Rightarrow> nat \<Rightarrow> error + bytes" where
  "length_prefix len offset =
     (if len < 56 then Inr [of_nat (offset + len)]
      else if len < 256 ^ 8 then
        (let length_string = be_digits len
         in Inr (of_nat (offset + 56 - 1 + length length_string) # length_string))
      else Inl length_overflow)"

fun collect :: "(error + 'a) list \<Rightarrow> error + 'a list" where
  "collect [] = Inr []"
| "collect (Inl e # rs) = Inl e"
| "collect (Inr x # rs) = (case collect rs of Inl e \<Rightarrow> Inl e | Inr xs \<Rightarrow> Inr (x # xs))"

fun encode_raw :: "item \<Rightarrow> error + bytes" where
  "encode_raw (Str bs) =
     (if length bs = 1 \<and> unat (hd bs) < 128 then Inr bs
      else case length_prefix (length bs) 128 of
             Inl e \<Rightarrow> Inl e
           | Inr p \<Rightarrow> Inr (p @ bs))"
| "encode_raw (Lst xs) =
     (case collect (map encode_raw xs) of
        Inl e \<Rightarrow> Inl e
      | Inr es \<Rightarrow>
          (case length_prefix (length (concat es)) 192 of
             Inl e \<Rightarrow> Inl e
           | Inr p \<Rightarrow> Inr (p @ concat es)))"

definition long_length :: "bytes \<Rightarrow> nat \<Rightarrow> error + nat" where
  "long_length bs ll =
     (if length bs < 1 + ll then Inl SchemaMismatch
      else let length_string = take ll (drop 1 bs)
           in if hd length_string = 0 then Inl SchemaMismatch
              else let len = big_endian_to_int length_string
                   in if len < 56 then Inl SchemaMismatch else Inr len)"

definition consume_length_prefix :: "bytes \<Rightarrow> error + (bool \<times> nat \<times> nat)" where
  "consume_length_prefix bs =
     (let b0 = unat (hd bs) in
      if b0 < 128 then Inr (False, 0, 1)
      else if b0 < 128 + 56 then
        (if b0 - 128 = 1 \<and> 2 \<le> length bs \<and> unat (bs ! 1) < 128 then Inl SchemaMismatch
         else Inr (False, 1, b0 - 128))
      else if b0 < 192 then
        (case long_length bs (b0 - 128 - 56 + 1) of
           Inl e \<Rightarrow> Inl e
         | Inr len \<Rightarrow> Inr (False, 1 + (b0 - 128 - 56 + 1), len))
      else if b0 < 192 + 56 then Inr (True, 1, b0 - 192)
      else
        (case long_length bs (b0 - 192 - 56 + 1) of
           Inl e \<Rightarrow> Inl e
         | Inr len \<Rightarrow> Inr (True, 1 + (b0 - 192 - 56 + 1), len)))"

function decode_items :: "bytes \<Rightarrow> error + item list" where
  "decode_items bs =
     (if bs = [] then Inr []
      else case consume_length_prefix bs of
        Inl e \<Rightarrow> Inl e
      | Inr (is_list, start, len) \<Rightarrow>
          if length bs < start + len \<or> start + len = 0 then Inl SchemaMismatch
          else if is_list then
            (if start = 0 then Inl SchemaMismatch
             else case decode_items (take len (drop start bs)) of
               Inl e \<Rightarrow> Inl e
             | Inr ys \<Rightarrow>
                 (case decode_items (drop (start + len) bs) of
                    Inl e \<Rightarrow> Inl e
                  | Inr xs \<Rightarrow> Inr (Lst ys # xs)))
          else
            (case decode_items (drop (start + len) bs) of
               Inl e \<Rightarrow> Inl e
             | Inr xs \<Rightarrow> Inr (Str (take len (drop start bs)) # xs)))"
  by pat_completeness auto
termination
  by (relation "measure length") auto

declare decode_items.simps [simp del]

definition decode_raw :: "bytes \<Rightarrow> error + item" where
  "decode_raw bs =
     (case decode_items bs of
        Inl e \<Rightarrow> Inl e
      | Inr [x] \<Rightarrow> Inr x
      | Inr _ \<Rightarrow> Inl SchemaMismatch)"

section \<open>Sedes and Python values\<close>

datatype domain_type = BlockHeader | Receipt | BaseTransactionFields | BlockBody

datatype sedes =
    big_endian_int | binary | boolean | HashOrNumber
  | CountableList sedes | List_sedes "sedes list" | Serializable domain_type

datatype 'o pyval =
    PyInt int | PyBytes bytes | PyStr string | PyBool bool
  | PyList "'o pyval list" | PyTuple "'o pyval list"
  | PyDict "(string \<times> 'o pyval) list"
  | PyObj domain_type 'o

record 'o domain_codec =
  dom_serialize :: "domain_type \<Rightarrow> 'o \<Rightarrow> error + item"
  dom_deserialize :: "domain_type \<Rightarrow> item \<Rightarrow> error + 'o"
  dom_iter :: "domain_type \<Rightarrow> 'o \<Rightarrow> error + 'o pyval list"

fun is_sequence :: "'o pyval \<Rightarrow> 'o pyval list option" where
  "is_sequence (PyList xs) = Some xs"
| "is_sequence (PyTuple xs) = Some xs"
| "is_sequence _ = None"

fun big_endian_int_serialize :: "'o pyval \<Rightarrow> error + item" where
  "big_endian_int_serialize (PyInt n) =
     (if n < 0 then Inl SchemaMismatch else Inr (Str (be_digits (nat n))))"
| "big_endian_int_serialize _ = Inl SchemaMismatch"

fun big_endian_int_deserialize :: "item \<Rightarrow> error + 'o pyval" where
  "big_endian_int_deserialize (Str bs) =
     (if bs \<noteq> [] \<and> hd bs = 0 then Inl SchemaMismatch
      else Inr (PyInt (int (big_endian_to_int bs))))"
| "big_endian_int_deserialize (Lst xs) = Inl SchemaMismatch"

fun binary_serialize :: "'o pyval \<Rightarrow> error + item" where
  "binary_serialize (PyBytes bs) = Inr (Str bs)"
| "binary_serialize _ = Inl SchemaMismatch"

fun binary_deserialize :: "item \<Rightarrow> error + 'o pyval" where
  "binary_deserialize (Str bs) = Inr (PyBytes bs)"
| "binary_deserialize (Lst xs) = Inl SchemaMismatch"

fun boolean_serialize :: "'o pyval \<Rightarrow> error + item" where
  "boolean_serialize (PyBool b) = Inr (Str (if b then [1] else []))"
| "boolean_serialize _ = Inl SchemaMismatch"

fun boolean_deserialize :: "item \<Rightarrow> error + 'o pyval" where
  "boolean_deserialize (Str bs) =
     (if bs = [] then Inr (PyBool False)
      else if bs = [1] then Inr (PyBool True)
      else Inl SchemaMismatch)"
| "boolean_deserialize (Lst xs) = Inl SchemaMismatch"

definition HashOrNumber_serialize :: "'o pyval \<Rightarrow> error + item" where
  "HashOrNumber_serialize obj =
     (case obj of
        PyInt n \<Rightarrow> big_endian_int_serialize obj
      | PyBytes bs \<Rightarrow> if length bs = 32 then binary_serialize obj else Inl SchemaMismatch
      | _ \<Rightarrow> Inl SchemaMismatch)"

fun HashOrNumber_deserialize :: "item \<Rightarrow> error + 'o pyval" where
  "HashOrNumber_deserialize (Str bs) =
     (if length bs = 32 then binary_deserialize (Str bs)
      else big_endian_int_deserialize (Str bs))"
| "HashOrNumber_deserialize (Lst xs) = Inl SchemaMismatch"

fun serialize :: "'o domain_codec \<Rightarrow> sedes \<Rightarrow> 'o pyval \<Rightarrow> error + item"
  and serialize_each :: "'o domain_codec \<Rightarrow> sedes \<Rightarrow> 'o pyval list \<Rightarrow> error + item list"
  and serialize_zip :: "'o domain_codec \<Rightarrow> sedes list \<Rightarrow> 'o pyval list \<Rightarrow> error + item list"
where
  "serialize D big_endian_int v = big_endian_int_serialize v"
| "serialize D binary v = binary_serialize v"
| "serialize D boolean v = boolean_serialize v"
| "serialize D HashOrNumber v = HashOrNumber_serialize v"
| "serialize D (Serializable k) v =
     (case v of
        PyObj k' obj \<Rightarrow> if k' = k then dom_serialize D k obj else Inl SchemaMismatch
      | _ \<Rightarrow> Inl SchemaMismatch)"
| "serialize D (CountableList element_sedes) v =
     (case is_sequence v of
        None \<Rightarrow> Inl SchemaMismatch
      | Some xs \<Rightarrow>
          (case serialize_each D element_sedes xs of
             Inl e \<Rightarrow> Inl e
           | Inr its \<Rightarrow> Inr (Lst its)))"
| "serialize D (List_sedes elements) v =
     (case is_sequence v of
        None \<Rightarrow> Inl SchemaMismatch
      | Some xs \<Rightarrow>
          (case serialize_zip D elements xs of
             Inl e \<Rightarrow> Inl e
           | Inr its \<Rightarrow> Inr (Lst its)))"
| "serialize_each D s [] = Inr []"
| "serialize_each D s (x # xs) =
     (case serialize D s x of
        Inl e \<Rightarrow> Inl e
      | Inr it \<Rightarrow>
          (case serialize_each D s xs of
             Inl e \<Rightarrow> Inl e
           | Inr its \<Rightarrow> Inr (it # its)))"
| "serialize_zip D [] [] = Inr []"
| "serialize_zip D (s # ss) (x # xs) =
     (case serialize D s x of
        Inl e \<Rightarrow> Inl e
      | Inr it \<Rightarrow>
          (case serialize_zip D ss xs of
             Inl e \<Rightarrow> Inl e
           | Inr its \<Rightarrow> Inr (it # its)))"
| "serialize_zip D [] (x # xs) = Inl SchemaMismatch"
| "serialize_zip D (s # ss) [] = Inl SchemaMismatch"

fun deserialize :: "'o domain_codec \<Rightarrow> sedes \<Rightarrow> item \<Rightarrow> error + 'o pyval"
  and deserialize_each :: "'o domain_codec \<Rightarrow> sedes \<Rightarrow> item list \<Rightarrow> error + 'o pyval list"
  and deserialize_zip :: "'o domain_codec \<Rightarrow> sedes list \<Rightarrow> item list \<Rightarrow> error + 'o pyval list"
where
  "deserialize D big_endian_int it = big_endian_int_deserialize it"
| "deserialize D binary it = binary_deserialize it"
| "deserialize D boolean it = boolean_deserialize it"
| "deserialize D HashOrNumber it = HashOrNumber_deserialize it"
| "deserialize D (Serializable k) it =
     (case dom_deserialize D k it of
        Inl e \<Rightarrow> Inl e
      | Inr obj \<Rightarrow> Inr (PyObj k obj))"
| "deserialize D (CountableList element_sedes) it =
     (case it of
        Str bs \<Rightarrow> Inl SchemaMismatch
      | Lst its \<Rightarrow>
          (case deserialize_each D element_sedes its of
             Inl e \<Rightarrow> Inl e
           | Inr xs \<Rightarrow> Inr (PyTuple xs)))"
| "deserialize D (List_sedes elements) it =
     (case it of
        Str bs \<Rightarrow> Inl SchemaMismatch
      | Lst its \<Rightarrow>
          (case deserialize_zip D elements its of
             Inl e \<Rightarrow> Inl e
           | Inr xs \<Rightarrow> Inr (PyTuple xs)))"
| "deserialize_each D s [] = Inr []"
| "deserialize_each D s (it # its) =
     (case deserialize D s it of
        Inl e \<Rightarrow> Inl e
      | Inr x \<Rightarrow>
          (case deserialize_each D s its of
             Inl e \<Rightarrow> Inl e
           | Inr xs \<Rightarrow> Inr (x # xs)))"
| "deserialize_zip D [] [] = Inr []"
| "deserialize_zip D (s # ss) (it # its) =
     (case deserialize D s it of
        Inl e \<Rightarrow> Inl e
      | Inr x \<Rightarrow>
          (case deserialize_zip D ss its of
             Inl e \<Rightarrow> Inl e
           | Inr xs \<Rightarrow> Inr (x # xs)))"
| "deserialize_zip D [] (it # its) = Inl SchemaMismatch"
| "deserialize_zip D (s # ss) [] = Inl SchemaMismatch"

section \<open>Command structures, encoding and decoding\<close>

datatype structure_t = FieldList "(string \<times> sedes) list" | Sedes sedes

fun "structure" :: "command \<Rightarrow> structure_t" where
  "structure Status = FieldList
     [(''protocol_version'', big_endian_int),
      (''network_id'', big_endian_int),
      (''td'', big_endian_int),
      (''best_hash'', binary),
      (''genesis_hash'', binary)]"
| "structure NewBlockHashes = Sedes (CountableList (List_sedes [binary, big_endian_int]))"
| "structure Transactions = Sedes (CountableList (Serializable BaseTransactionFields))"
| "structure GetBlockHeaders = FieldList
     [(''block_number_or_hash'', HashOrNumber),
      (''max_headers'', big_endian_int),
      (''skip'', big_endian_int),
      (''reverse'', boolean)]"
| "structure BlockHeaders = Sedes (CountableList (Serializable BlockHeader))"
| "structure GetBlockBodies = Sedes (CountableList binary)"
| "structure BlockBodies = Sedes (CountableList (Serializable BlockBody))"
| "structure NewBlock = FieldList
     [(''block'', List_sedes [Serializable BlockHeader,
                              CountableList (Serializable BaseTransactionFields),
                              CountableList (Serializable BlockHeader)]),
      (''total_difficulty'', big_endian_int)]"
| "structure GetNodeData = Sedes (CountableList binary)"
| "structure NodeData = Sedes (CountableList binary)"
| "structure GetReceipts = Sedes (CountableList binary)"
| "structure Receipts = Sedes (CountableList (CountableList (Serializable Receipt)))"

definition rlp_encode :: "'o domain_codec \<Rightarrow> sedes \<Rightarrow> 'o pyval \<Rightarrow> error + bytes" where
  "rlp_encode D s obj = (case serialize D s obj of Inl e \<Rightarrow> Inl e | Inr it \<Rightarrow> encode_raw it)"

definition rlp_decode :: "'o domain_codec \<Rightarrow> sedes \<Rightarrow> bytes \<Rightarrow> error + 'o pyval" where
  "rlp_decode D s bs = (case decode_raw bs of Inl e \<Rightarrow> Inl e | Inr it \<Rightarrow> deserialize D s it)"

definition dict_values :: "(string \<times> sedes) list \<Rightarrow> (string \<times> 'o pyval) list \<Rightarrow> 'o pyval list option" where
  "dict_values flds d =
     (if distinct (map fst d) \<and> set (map fst d) \<subseteq> set (map fst flds)
      then those (map (\<lambda>f. map_of d (fst f)) flds)
      else None)"

definition encode_payload :: "'o domain_codec \<Rightarrow> command \<Rightarrow> 'o pyval \<Rightarrow> error + bytes" where
  "encode_payload D c data =
     (case structure c of
        Sedes s \<Rightarrow> rlp_encode D s data
      | FieldList flds \<Rightarrow>
          (case data of
             PyDict d \<Rightarrow>
               (case dict_values flds d of
                  None \<Rightarrow> Inl SchemaMismatch
                | Some vs \<Rightarrow> rlp_encode D (List_sedes (map snd flds)) (PyList vs))
           | _ \<Rightarrow> rlp_encode D (List_sedes (map snd flds)) data))"

definition decode_payload :: "'o domain_codec \<Rightarrow> command \<Rightarrow> bytes \<Rightarrow> error + 'o pyval" where
  "decode_payload D c body =
     (case structure c of
        Sedes s \<Rightarrow> rlp_decode D s body
      | FieldList flds \<Rightarrow>
          (case rlp_decode D (List_sedes (map snd flds)) body of
             Inl e \<Rightarrow> Inl e
           | Inr v \<Rightarrow>
               (case is_sequence v of
                  None \<Rightarrow> Inl SchemaMismatch
                | Some xs \<Rightarrow> Inr (PyDict (zip (map fst flds) xs)))))"

definition encode :: "'o domain_codec \<Rightarrow> command \<Rightarrow> int \<Rightarrow> 'o pyval \<Rightarrow> error + bytes \<times> bytes" where
  "encode D c cmd_id_offset data =
     (let absolute_id = cmd_id_offset + cmd_id c in
      if absolute_id < 0 then Inl SchemaMismatch
      else case encode_payload D c data of
             Inl e \<Rightarrow> Inl e
           | Inr body \<Rightarrow> Inr (be_digits (nat absolute_id), body))"

definition decode :: "'o domain_codec \<Rightarrow> command \<Rightarrow> bytes \<Rightarrow> error + 'o pyval" where
  "decode D c body = decode_payload D c body"

definition header_cmd_id :: "bytes \<Rightarrow> int" where
  "header_cmd_id header = int (big_endian_to_int header)"

section \<open>The protocol object and its send operations\<close>

definition digit_chars :: string where
  "digit_chars = ''0123456789''"

fun str_nat :: "nat \<Rightarrow> string" where
  "str_nat n = (if n < 10 then [digit_chars ! n] else str_nat (n div 10) @ [digit_chars ! (n mod 10)])"

declare str_nat.simps [simp del]

definition str_int :: "int \<Rightarrow> string" where
  "str_int i = (if i < 0 then CHR ''-'' # str_nat (nat (- i)) else str_nat (nat i))"

record BasePeer =
  network_id :: int
  sent :: "(bytes \<times> bytes) list"

record ETHProtocol =
  peer :: BasePeer
  cmd_id_offset :: int

record ChainInfo =
  block_hash :: bytes
  total_difficulty :: int
  genesis_hash :: bytes

datatype BlockIdentifier = BlockNumber int | Hash32 bytes

fun block_identifier_value :: "BlockIdentifier \<Rightarrow> 'o pyval" where
  "block_identifier_value (BlockNumber n) = PyInt n"
| "block_identifier_value (Hash32 h) = PyBytes h"

definition send :: "ETHProtocol \<Rightarrow> bytes \<Rightarrow> bytes \<Rightarrow> ETHProtocol" where
  "send self header body = self\<lparr>peer := (peer self)\<lparr>sent := sent (peer self) @ [(header, body)]\<rparr>\<rparr>"

definition send_handshake :: "'o domain_codec \<Rightarrow> ETHProtocol \<Rightarrow> ChainInfo \<Rightarrow> error + ETHProtocol" where
  "send_handshake D self head_info =
     (let resp = PyDict
        [(''protocol_version'', PyInt version),
         (''network_id'', PyInt (network_id (peer self))),
         (''td'', PyInt (total_difficulty head_info)),
         (''best_hash'', PyBytes (block_hash head_info)),
         (''genesis_hash'', PyBytes (genesis_hash head_info))]
      in (case encode D Status (cmd_id_offset self) resp of
        Inl e \<Rightarrow> Inl e
      | Inr (header, body) \<Rightarrow> Inr (send self header body)))"

definition send_get_node_data :: "'o domain_codec \<Rightarrow> ETHProtocol \<Rightarrow> bytes list \<Rightarrow> error + ETHProtocol" where
  "send_get_node_data D self node_hashes =
     (case encode D GetNodeData (cmd_id_offset self) (PyList (map PyBytes node_hashes)) of
        Inl e \<Rightarrow> Inl e
      | Inr (header, body) \<Rightarrow> Inr (send self header body))"

definition send_node_data :: "'o domain_codec \<Rightarrow> ETHProtocol \<Rightarrow> bytes list \<Rightarrow> error + ETHProtocol" where
  "send_node_data D self nodes =
     (case encode D NodeData (cmd_id_offset self) (PyList (map PyBytes nodes)) of
        Inl e \<Rightarrow> Inl e
      | Inr (header, body) \<Rightarrow> Inr (send self header body))"

definition send_get_block_headers ::
  "'o domain_codec \<Rightarrow> ETHProtocol \<Rightarrow> BlockIdentifier \<Rightarrow> int \<Rightarrow> int \<Rightarrow> bool \<Rightarrow> error + ETHProtocol" where
  "send_get_block_headers D self block_number_or_hash max_headers skip reverse =
     (if max_headers > MAX_HEADERS_FETCH then
        Inl (ValueError (''Cannot ask for more than '' @ str_int MAX_HEADERS_FETCH
                           @ '' block headers in a single request''))
      else
        (let data = PyDict
           [(''block_number_or_hash'', block_identifier_value block_number_or_hash),
            (''max_headers'', PyInt max_headers),
            (''skip'', PyInt skip),
            (''reverse'', PyBool reverse)]
         in (case encode D GetBlockHeaders (cmd_id_offset self) data of
        Inl e \<Rightarrow> Inl e
      | Inr (header, body) \<Rightarrow> Inr (send self header body))))"

definition send_block_headers :: "'o domain_codec \<Rightarrow> ETHProtocol \<Rightarrow> 'o list \<Rightarrow> error + ETHProtocol" where
  "send_block_headers D self headers =
     (case encode D BlockHeaders (cmd_id_offset self) (PyTuple (map (PyObj BlockHeader) headers)) of
        Inl e \<Rightarrow> Inl e
      | Inr (header, body) \<Rightarrow> Inr (send self header body))"

definition send_get_block_bodies :: "'o domain_codec \<Rightarrow> ETHProtocol \<Rightarrow> bytes list \<Rightarrow> error + ETHProtocol" where
  "send_get_block_bodies D self block_hashes =
     (case encode D GetBlockBodies (cmd_id_offset self) (PyList (map PyBytes block_hashes)) of
        Inl e \<Rightarrow> Inl e
      | Inr (header, body) \<Rightarrow> Inr (send self header body))"

definition send_block_bodies :: "'o domain_codec \<Rightarrow> ETHProtocol \<Rightarrow> 'o list \<Rightarrow> error + ETHProtocol" where
  "send_block_bodies D self blocks =
     (case encode D BlockBodies (cmd_id_offset self) (PyList (map (PyObj BlockBody) blocks)) of
        Inl e \<Rightarrow> Inl e
      | Inr (header, body) \<Rightarrow> Inr (send self header body))"

definition send_get_receipts :: "'o domain_codec \<Rightarrow> ETHProtocol \<Rightarrow> bytes list \<Rightarrow> error + ETHProtocol" where
  "send_get_receipts D self block_hashes =
     (case encode D GetReceipts (cmd_id_offset self) (PyList (map PyBytes block_hashes)) of
        Inl e \<Rightarrow> Inl e
      | Inr (header, body) \<Rightarrow> Inr (send self header body))"

definition send_receipts :: "'o domain_codec \<Rightarrow> ETHProtocol \<Rightarrow> 'o list list \<Rightarrow> error + ETHProtocol" where
  "send_receipts D self receipts =
     (case encode D Receipts (cmd_id_offset self)
             (PyList (map (\<lambda>rs. PyList (map (PyObj Receipt) rs)) receipts)) of
        Inl e \<Rightarrow> Inl e
      | Inr (header, body) \<Rightarrow> Inr (send self header body))"

definition send_transactions :: "'o domain_codec \<Rightarrow> ETHProtocol \<Rightarrow> 'o list \<Rightarrow> error + ETHProtocol" where
  "send_transactions D self transactions =
     (case encode D Transactions (cmd_id_offset self) (PyList (map (PyObj BaseTransactionFields) transactions)) of
        Inl e \<Rightarrow> Inl e
      | Inr (header, body) \<Rightarrow> Inr (send self header body))"


fun tuple_builtin :: "'o domain_codec \<Rightarrow> 'o pyval \<Rightarrow> error + 'o pyval" where
  "tuple_builtin D (PyList xs) = Inr (PyTuple xs)"
| "tuple_builtin D (PyTuple xs) = Inr (PyTuple xs)"
| "tuple_builtin D (PyDict d) = Inr (PyTuple (map (\<lambda>kv. PyStr (fst kv)) d))"
| "tuple_builtin D (PyBytes bs) = Inr (PyTuple (map (\<lambda>b. PyInt (uint b)) bs))"
| "tuple_builtin D (PyStr s) = Inr (PyTuple (map (\<lambda>c. PyStr [c]) s))"
| "tuple_builtin D (PyInt n) = Inl TypeError"
| "tuple_builtin D (PyBool b) = Inl TypeError"
| "tuple_builtin D (PyObj k obj) =
     (case dom_iter D k obj of Inl e \<Rightarrow> Inl e | Inr xs \<Rightarrow> Inr (PyTuple xs))"

definition extract_headers :: "'o domain_codec \<Rightarrow> 'o pyval \<Rightarrow> error + 'o pyval" where
  "extract_headers D msg = tuple_builtin D msg"

section \<open>Notions used to state the properties\<close>

fun freeze :: "'o pyval \<Rightarrow> 'o pyval" where
  "freeze (PyList xs) = PyTuple (map freeze xs)"
| "freeze (PyTuple xs) = PyTuple (map freeze xs)"
| "freeze v = v"

fun conforms :: "'o domain_codec \<Rightarrow> sedes \<Rightarrow> 'o pyval \<Rightarrow> bool"
  and conforms_each :: "'o domain_codec \<Rightarrow> sedes \<Rightarrow> 'o pyval list \<Rightarrow> bool"
  and conforms_zip :: "'o domain_codec \<Rightarrow> sedes list \<Rightarrow> 'o pyval list \<Rightarrow> bool"
where
  "conforms D big_endian_int v = (case v of PyInt n \<Rightarrow> 0 \<le> n | _ \<Rightarrow> False)"
| "conforms D binary v = (case v of PyBytes bs \<Rightarrow> True | _ \<Rightarrow> False)"
| "conforms D boolean v = (case v of PyBool b \<Rightarrow> True | _ \<Rightarrow> False)"
| "conforms D HashOrNumber v =
     (case v of
        PyInt n \<Rightarrow> 0 \<le> n \<and> n < 2 ^ 248
      | PyBytes bs \<Rightarrow> length bs = 32
      | _ \<Rightarrow> False)"
| "conforms D (Serializable k) v =
     (case v of
        PyObj k' obj \<Rightarrow>
          k' = k \<and>
          (case dom_serialize D k obj of
             Inl e \<Rightarrow> False
           | Inr it \<Rightarrow> dom_deserialize D k it = Inr obj)
      | _ \<Rightarrow> False)"
| "conforms D (CountableList element_sedes) v =
     (case is_sequence v of None \<Rightarrow> False | Some xs \<Rightarrow> conforms_each D element_sedes xs)"
| "conforms D (List_sedes elements) v =
     (case is_sequence v of None \<Rightarrow> False | Some xs \<Rightarrow> conforms_zip D elements xs)"
| "conforms_each D s [] = True"
| "conforms_each D s (x # xs) = (conforms D s x \<and> conforms_each D s xs)"
| "conforms_zip D [] [] = True"
| "conforms_zip D (s # ss) (x # xs) = (conforms D s x \<and> conforms_zip D ss xs)"
| "conforms_zip D [] (x # xs) = False"
| "conforms_zip D (s # ss) [] = False"


fun enc_size :: "item \<Rightarrow> nat" where
  "enc_size (Str bs) = length bs + 9"
| "enc_size (Lst xs) = sum_list (map enc_size xs) + 9"

definition conforms_payload :: "'o domain_codec \<Rightarrow> command \<Rightarrow> 'o pyval \<Rightarrow> bool" where
  "conforms_payload D c v =
     (case structure c of
        Sedes s \<Rightarrow> conforms D s v
      | FieldList flds \<Rightarrow>
          (case v of
             PyDict d \<Rightarrow>
               (case dict_values flds d of
                  None \<Rightarrow> False
                | Some vs \<Rightarrow> conforms D (List_sedes (map snd flds)) (PyList vs))
           | _ \<Rightarrow> False))"

definition canonical :: "command \<Rightarrow> 'o pyval \<Rightarrow> 'o pyval" where
  "canonical c v =
     (case structure c of
        Sedes s \<Rightarrow> freeze v
      | FieldList flds \<Rightarrow>
          (case v of
             PyDict d \<Rightarrow>
               (case dict_values flds d of
                  None \<Rightarrow> v
                | Some vs \<Rightarrow> PyDict (zip (map fst flds) (map freeze vs)))
           | _ \<Rightarrow> v))"

definition in_canonical_form :: "command \<Rightarrow> 'o pyval \<Rightarrow> bool" where
  "in_canonical_form c v =
     (case structure c of
        Sedes s \<Rightarrow> freeze v = v
      | FieldList flds \<Rightarrow>
          (case v of
             PyDict d \<Rightarrow> map fst d = map fst flds \<and> map freeze (map snd d) = map snd d
           | _ \<Rightarrow> False))"


definition sample_codec :: "bytes domain_codec" where
  "sample_codec =
     \<lparr>dom_serialize = (\<lambda>k obj. Inr (Lst [Str obj])),
      dom_deserialize = (\<lambda>k it. case it of Lst [Str bs] \<Rightarrow> Inr bs | _ \<Rightarrow> Inl SchemaMismatch),
      dom_iter = (\<lambda>k obj. Inr [PyBytes obj])\<rparr>"

definition valid_block_identifier :: "BlockIdentifier \<Rightarrow> bool" where
  "valid_block_identifier b =
     (case b of BlockNumber n \<Rightarrow> 0 \<le> n \<and> n < 2 ^ 248 | Hash32 h \<Rightarrow> length h = 32)"

definition get_block_headers_data :: "BlockIdentifier \<Rightarrow> int \<Rightarrow> int \<Rightarrow> bool \<Rightarrow> 'o pyval" where
  "get_block_headers_data b max_headers skip reverse =
     PyDict [(''block_number_or_hash'', block_identifier_value b),
             (''max_headers'', PyInt max_headers),
             (''skip'', PyInt skip),
             (''reverse'', PyBool reverse)]"


definition ceiling_exceeded :: error where
  "ceiling_exceeded = ValueError ''Cannot ask for more than 192 block headers in a single request''"

definition sample_protocol :: ETHProtocol where
  "sample_protocol = \<lparr>peer = \<lparr>network_id = 1, sent = []\<rparr>, cmd_id_offset = 16\<rparr>"

definition hashes_size :: "bytes list \<Rightarrow> nat" where
  "hashes_size hs = sum_list (map (\<lambda>h. length h + 9) hs) + 9"

definition status_message :: "int \<Rightarrow> ChainInfo \<Rightarrow> 'o pyval" where
  "status_message net head_info =
     PyDict [(''protocol_version'', PyInt 63),
             (''network_id'', PyInt net),
             (''td'', PyInt (total_difficulty head_info)),
             (''best_hash'', PyBytes (block_hash head_info)),
             (''genesis_hash'', PyBytes (genesis_hash head_info))]"

definition sample_head :: ChainInfo where
  "sample_head = \<lparr>block_hash = replicate 32 1, total_difficulty = 1000, genesis_hash = replicate 32 2\<rparr>"

section \<open>Properties of the registry\<close>

lemma set_commands: "set commands = UNIV"
proof -
  have "c \<in> set commands" for c
    by (cases c) (simp_all add: commands_def)
  then show ?thesis by blast
qed

lemma cmd_id_inj: "cmd_id c = cmd_id c' \<Longrightarrow> c = c'"
  by (cases c; cases c'; simp)

lemma cmd_id_range: "0 \<le> cmd_id c \<and> cmd_id c < cmd_length"
  by (cases c) (simp_all add: cmd_length_def)

lemma cmd_id_image: "cmd_id ` set commands = {0..7} \<union> {13..16}"
proof -
  have "{0..7} \<union> {13..16} = {0, 1, 2, 3, 4, 5, 6, 7, 13, 14, 15, 16 :: int}"
    by auto
  then show ?thesis
    by (simp add: commands_def insert_commute)
qed

section \<open>Big-endian digits and the byte encoding of items\<close>

lemma unat_byte: "n < 256 \<Longrightarrow> unat (of_nat n :: byte) = n"
  by (simp add: unat_of_nat)

lemma big_endian_to_int_snoc:
  "big_endian_to_int (bs @ [b]) = big_endian_to_int bs * 256 + unat b"
  by (simp add: big_endian_to_int_def)

lemma be_digits_0: "be_digits 0 = []"
  by (simp add: be_digits.simps)

lemma be_digits_pos:
  "0 < n \<Longrightarrow> be_digits n = be_digits (n div 256) @ [of_nat (n mod 256)]"
  by (subst be_digits.simps) simp

lemma big_endian_to_int_be_digits: "big_endian_to_int (be_digits n) = n"
proof (induction n rule: less_induct)
  case (less n)
  show ?case
  proof (cases "n = 0")
    case True
    then show ?thesis by (simp add: be_digits_0 big_endian_to_int_def)
  next
    case False
    then have "n div 256 < n" by simp
    then have "big_endian_to_int (be_digits (n div 256)) = n div 256"
      by (rule less.IH)
    with False show ?thesis
      by (simp add: be_digits_pos big_endian_to_int_snoc unat_byte)
  qed
qed

lemma be_digits_nonempty: "0 < n \<Longrightarrow> be_digits n \<noteq> []"
  by (simp add: be_digits_pos)

lemma hd_be_digits: "0 < n \<Longrightarrow> hd (be_digits n) \<noteq> 0"
proof (induction n rule: less_induct)
  case (less n)
  show ?case
  proof (cases "n div 256 = 0")
    case True
    with less.prems have "n < 256" "n mod 256 = n" by auto
    moreover have "be_digits n = [of_nat (n mod 256)]"
      using less.prems True by (simp add: be_digits_pos be_digits_0)
    moreover have "unat (of_nat n :: byte) = n"
      using \<open>n < 256\<close> by (rule unat_byte)
    ultimately show ?thesis
      using less.prems by (auto simp: unat_eq_0 [symmetric] simp del: unat_eq_0)
  next
    case False
    then have "0 < n div 256" "n div 256 < n" using less.prems by auto
    then have "hd (be_digits (n div 256)) \<noteq> 0" "be_digits (n div 256) \<noteq> []"
      using less.IH be_digits_nonempty by auto
    then show ?thesis
      using less.prems by (simp add: be_digits_pos [of n])
  qed
qed

lemma length_be_digits: "n < 256 ^ k \<Longrightarrow> length (be_digits n) \<le> k"
proof (induction k arbitrary: n)
  case 0
  then show ?case by (simp add: be_digits_0)
next
  case (Suc k)
  show ?case
  proof (cases "n = 0")
    case True
    then show ?thesis by (simp add: be_digits_0)
  next
    case False
    from Suc.prems have "n div 256 < 256 ^ k"
      by (simp add: less_mult_imp_div_less mult.commute)
    then have "length (be_digits (n div 256)) \<le> k" by (rule Suc.IH)
    with False show ?thesis by (simp add: be_digits_pos)
  qed
qed

lemma length_prefix_short:
  "len < 56 \<Longrightarrow> length_prefix len offset = Inr [of_nat (offset + len)]"
  by (simp add: length_prefix_def)

lemma length_prefix_long:
  "56 \<le> len \<Longrightarrow> len < 256 ^ 8 \<Longrightarrow>
   length_prefix len offset = Inr (of_nat (offset + 55 + length (be_digits len)) # be_digits len)"
  by (simp add: length_prefix_def Let_def)

lemma length_prefix_Inr:
  "length_prefix len offset = Inr p \<Longrightarrow> len < 256 ^ 8 \<and> p \<noteq> []"
  by (auto simp: length_prefix_def Let_def split: if_splits)

lemma long_length_be_digits:
  assumes "56 \<le> len" "len < 256 ^ 8"
  shows "long_length (b # be_digits len @ rest) (length (be_digits len)) = Inr len"
proof -
  have "0 < len" using assms by simp
  then have "hd (be_digits len) \<noteq> 0"
    by (rule hd_be_digits)
  then show ?thesis
    using assms by (simp add: long_length_def big_endian_to_int_be_digits)
qed

lemma consume_short_str:
  "unat b = 128 + n \<Longrightarrow> n < 56 \<Longrightarrow> \<not> (n = 1 \<and> bs \<noteq> [] \<and> unat (hd bs) < 128) \<Longrightarrow>
   consume_length_prefix (b # bs) = Inr (False, 1, n)"
  by (cases bs) (auto simp: consume_length_prefix_def)

lemma consume_short_lst:
  "unat b = 192 + n \<Longrightarrow> n < 56 \<Longrightarrow> consume_length_prefix (b # bs) = Inr (True, 1, n)"
  by (simp add: consume_length_prefix_def)

lemma consume_long_str:
  "unat b = 183 + k \<Longrightarrow> 1 \<le> k \<Longrightarrow> k \<le> 8 \<Longrightarrow> long_length (b # bs) k = Inr len \<Longrightarrow>
   consume_length_prefix (b # bs) = Inr (False, 1 + k, len)"
  by (simp add: consume_length_prefix_def)

lemma consume_long_lst:
  "unat b = 247 + k \<Longrightarrow> 1 \<le> k \<Longrightarrow> k \<le> 8 \<Longrightarrow> long_length (b # bs) k = Inr len \<Longrightarrow>
   consume_length_prefix (b # bs) = Inr (True, 1 + k, len)"
  by (simp add: consume_length_prefix_def)

lemma consume_length_prefix_str:
  assumes "length_prefix (length bs) 128 = Inr p"
    and "\<not> (length bs = 1 \<and> unat (hd bs) < 128)"
  shows "consume_length_prefix (p @ bs @ rest) = Inr (False, length p, length bs)"
proof (cases "length bs < 56")
  case True
  then have p: "p = [of_nat (128 + length bs)]"
    using assms(1) by (simp only: length_prefix_short sum.inject)
  have u: "unat (of_nat (128 + length bs) :: byte) = 128 + length bs"
    using True by (intro unat_byte) simp
  have "\<not> (length bs = 1 \<and> bs @ rest \<noteq> [] \<and> unat (hd (bs @ rest)) < 128)"
    using assms(2) by (cases bs) auto
  with u True
  have "consume_length_prefix (of_nat (128 + length bs) # bs @ rest) = Inr (False, 1, length bs)"
    by (rule consume_short_str)
  then show ?thesis
    unfolding p by simp
next
  case False
  then have ge: "56 \<le> length bs" by simp
  have lt: "length bs < 256 ^ 8"
    using assms(1) length_prefix_Inr by blast
  let ?ls = "be_digits (length bs)"
  let ?b = "of_nat (128 + 55 + length ?ls) :: byte"
  have p: "p = ?b # ?ls"
    using assms(1) ge lt by (simp only: length_prefix_long sum.inject)
  have l8: "length ?ls \<le> 8"
    using lt by (rule length_be_digits)
  have "0 < length bs" using ge by linarith
  then have "?ls \<noteq> []" by (rule be_digits_nonempty)
  then have l1: "1 \<le> length ?ls"
    by (simp add: Suc_le_eq)
  have "unat ?b = 128 + 55 + length ?ls"
    using l8 by (intro unat_byte) simp
  then have u: "unat ?b = 183 + length ?ls" by simp
  have ll: "long_length (?b # ?ls @ bs @ rest) (length ?ls) = Inr (length bs)"
    using ge lt by (rule long_length_be_digits)
  have "consume_length_prefix (?b # ?ls @ bs @ rest) = Inr (False, 1 + length ?ls, length bs)"
    using u l1 l8 ll by (rule consume_long_str)
  then show ?thesis
    unfolding p by simp
qed

lemma consume_length_prefix_lst:
  assumes "length_prefix (length bs) 192 = Inr p"
  shows "consume_length_prefix (p @ bs @ rest) = Inr (True, length p, length bs)"
proof (cases "length bs < 56")
  case True
  then have p: "p = [of_nat (192 + length bs)]"
    using assms(1) by (simp only: length_prefix_short sum.inject)
  have u: "unat (of_nat (192 + length bs) :: byte) = 192 + length bs"
    using True by (intro unat_byte) simp
  from u True
  have "consume_length_prefix (of_nat (192 + length bs) # bs @ rest) = Inr (True, 1, length bs)"
    by (rule consume_short_lst)
  then show ?thesis
    unfolding p by simp
next
  case False
  then have ge: "56 \<le> length bs" by simp
  have lt: "length bs < 256 ^ 8"
    using assms(1) length_prefix_Inr by blast
  let ?ls = "be_digits (length bs)"
  let ?b = "of_nat (192 + 55 + length ?ls) :: byte"
  have p: "p = ?b # ?ls"
    using assms(1) ge lt by (simp only: length_prefix_long sum.inject)
  have l8: "length ?ls \<le> 8"
    using lt by (rule length_be_digits)
  have "0 < length bs" using ge by linarith
  then have "?ls \<noteq> []" by (rule be_digits_nonempty)
  then have l1: "1 \<le> length ?ls"
    by (simp add: Suc_le_eq)
  have "unat ?b = 192 + 55 + length ?ls"
    using l8 by (intro unat_byte) simp
  then have u: "unat ?b = 247 + length ?ls" by simp
  have ll: "long_length (?b # ?ls @ bs @ rest) (length ?ls) = Inr (length bs)"
    using ge lt by (rule long_length_be_digits)
  have "consume_length_prefix (?b # ?ls @ bs @ rest) = Inr (True, 1 + length ?ls, length bs)"
    using u l1 l8 ll by (rule consume_long_lst)
  then show ?thesis
    unfolding p by simp
qed

lemma consume_length_prefix_single:
  "unat b < 128 \<Longrightarrow> consume_length_prefix (b # rest) = Inr (False, 0, 1)"
  by (simp add: consume_length_prefix_def)

lemma decode_items_Nil: "decode_items [] = Inr []"
  by (simp add: decode_items.simps)

lemma decode_items_str:
  assumes "encode_raw (Str bs) = Inr enc" and "decode_items rest = Inr xs"
  shows "decode_items (enc @ rest) = Inr (Str bs # xs)"
proof (cases "length bs = 1 \<and> unat (hd bs) < 128")
  case True
  then obtain b where b: "bs = [b]" "unat b < 128"
    by (cases bs) auto
  with assms(1) have enc: "enc = [b]" by simp
  show ?thesis
    unfolding enc
    by (subst decode_items.simps)
      (simp add: consume_length_prefix_single b assms(2))
next
  case False
  with assms(1) obtain p where p: "length_prefix (length bs) 128 = Inr p" "enc = p @ bs"
    by (auto split: sum.splits)
  have c: "consume_length_prefix (p @ bs @ rest) = Inr (False, length p, length bs)"
    using p(1) False by (rule consume_length_prefix_str)
  have ne: "p \<noteq> []" using p(1) length_prefix_Inr by blast
  show ?thesis
    unfolding p(2)
    by (subst decode_items.simps) (simp add: c ne assms(2))
qed

lemma decode_items_concat:
  assumes "\<And>x enc rest xs. x \<in> set ys \<Longrightarrow> encode_raw x = Inr enc \<Longrightarrow>
             decode_items rest = Inr xs \<Longrightarrow> decode_items (enc @ rest) = Inr (x # xs)"
    and "collect (map encode_raw ys) = Inr es"
    and "decode_items rest = Inr xs"
  shows "decode_items (concat es @ rest) = Inr (ys @ xs)"
  using assms
proof (induction ys arbitrary: es)
  case Nil
  then show ?case by simp
next
  case (Cons y ys)
  from Cons.prems(2) obtain e es' where e: "encode_raw y = Inr e"
    "collect (map encode_raw ys) = Inr es'" "es = e # es'"
    by (cases "encode_raw y") (auto split: sum.splits)
  have "decode_items (concat es' @ rest) = Inr (ys @ xs)"
    using Cons.prems(1) e(2) Cons.prems(3) by (intro Cons.IH) auto
  then have "decode_items (e @ concat es' @ rest) = Inr (y # ys @ xs)"
    using Cons.prems(1) [of y e] e(1) by simp
  then show ?case by (simp add: e(3))
qed

lemma decode_items_encode_raw:
  "encode_raw x = Inr enc \<Longrightarrow> decode_items rest = Inr xs \<Longrightarrow>
   decode_items (enc @ rest) = Inr (x # xs)"
proof (induction x arbitrary: enc rest xs)
  case (Str bs)
  then show ?case by (rule decode_items_str)
next
  case (Lst ys)
  from Lst.prems(1) obtain es p where es: "collect (map encode_raw ys) = Inr es"
    and p: "length_prefix (length (concat es)) 192 = Inr p" and enc: "enc = p @ concat es"
    by (auto split: sum.splits)
  have c: "consume_length_prefix (p @ concat es @ rest)
             = Inr (True, length p, length (concat es))"
    using p by (rule consume_length_prefix_lst)
  have ne: "p \<noteq> []" using p length_prefix_Inr by blast
  have "decode_items (concat es @ []) = Inr (ys @ [])"
    using Lst.IH es decode_items_Nil by (rule decode_items_concat)
  then have inner: "decode_items (concat es) = Inr ys" by simp
  show ?case
    unfolding enc
    by (subst decode_items.simps) (simp add: c ne inner Lst.prems(2))
qed

lemma decode_raw_encode_raw: "encode_raw x = Inr enc \<Longrightarrow> decode_raw enc = Inr x"
  using decode_items_encode_raw [of x enc "[]" "[]"]
  by (simp add: decode_raw_def decode_items_Nil)

section \<open>Serialization round trip\<close>

lemma is_sequence_freeze:
  "is_sequence v = Some xs \<Longrightarrow> freeze v = PyTuple (map freeze xs)"
  by (cases v) auto

lemma big_endian_int_roundtrip:
  assumes "0 \<le> n"
  shows "big_endian_int_deserialize (Str (be_digits (nat n))) = Inr (PyInt n)"
proof (cases "n = 0")
  case True
  then show ?thesis
    by (simp add: be_digits_0 big_endian_to_int_def)
next
  case False
  with assms have "0 < nat n" by simp
  then have "hd (be_digits (nat n)) \<noteq> 0"
    by (rule hd_be_digits)
  with assms show ?thesis
    by (simp add: big_endian_to_int_be_digits)
qed

lemma length_be_digits_248:
  assumes "0 \<le> n" "n < 2 ^ 248"
  shows "length (be_digits (nat n)) \<le> 31"
proof -
  have "(256::nat) ^ 31 = 2 ^ 248" by simp
  moreover have "nat n < 2 ^ 248"
    using assms by (simp add: nat_less_iff)
  ultimately have "nat n < 256 ^ 31" by simp
  then show ?thesis by (rule length_be_digits)
qed

lemma HashOrNumber_roundtrip:
  assumes "conforms D HashOrNumber v"
  shows "\<exists>it. HashOrNumber_serialize v = Inr it \<and> HashOrNumber_deserialize it = Inr (freeze v)"
proof (cases v)
  case (PyInt n)
  with assms have n: "0 \<le> n" "n < 2 ^ 248" by simp_all
  then have "length (be_digits (nat n)) \<noteq> 32"
    using length_be_digits_248 [of n] by simp
  moreover have "big_endian_int_deserialize (Str (be_digits (nat n))) = Inr (PyInt n :: 'a pyval)"
    using n(1) by (rule big_endian_int_roundtrip)
  ultimately show ?thesis
    using n PyInt by (simp add: HashOrNumber_serialize_def)
next
  case (PyBytes bs)
  with assms show ?thesis by (simp add: HashOrNumber_serialize_def)
qed (use assms in simp_all)

lemma serialize_deserialize:
  "conforms D s v \<longrightarrow>
     (\<exists>it. serialize D s v = Inr it \<and> deserialize D s it = Inr (freeze v))"
  "conforms_each D s xs \<longrightarrow>
     (\<exists>its. serialize_each D s xs = Inr its \<and> deserialize_each D s its = Inr (map freeze xs))"
  "conforms_zip D ss xs \<longrightarrow>
     (\<exists>its. serialize_zip D ss xs = Inr its \<and> deserialize_zip D ss its = Inr (map freeze xs))"
proof (induction D s v and D s xs and D ss xs
    rule: serialize_serialize_each_serialize_zip.induct)
  case (1 D v)
  then show ?case
    by (cases v)
      (simp_all add: big_endian_int_roundtrip del: big_endian_int_deserialize.simps)
next
  case (2 D v)
  then show ?case by (cases v) simp_all
next
  case (3 D v)
  then show ?case by (cases v) simp_all
next
  case (4 D v)
  then show ?case using HashOrNumber_roundtrip [of D v] by simp
next
  case (5 D k v)
  then show ?case
    by (cases v) (auto split: sum.splits)
next
  case (6 D element_sedes v)
  then show ?case
    by (cases "is_sequence v") (auto simp: is_sequence_freeze)
next
  case (7 D elements v)
  then show ?case
    by (cases "is_sequence v") (auto simp: is_sequence_freeze)
qed auto

lemma collect_Inl: "collect rs = Inl e \<Longrightarrow> Inl e \<in> set rs"
  by (induction rs rule: collect.induct) (auto split: sum.splits)

lemma collect_Inr_length: "collect rs = Inr xs \<Longrightarrow> length xs = length rs"
  by (induction rs arbitrary: xs rule: collect.induct) (auto split: sum.splits)

lemma length_prefix_Inl: "length_prefix len offset = Inl e \<Longrightarrow> e = length_overflow"
  by (auto simp: length_prefix_def Let_def split: if_splits)

lemma encode_raw_Inl: "encode_raw x = Inl e \<Longrightarrow> e = length_overflow"
proof (induction x arbitrary: e)
  case (Str bs)
  then show ?case
    by (auto split: if_splits sum.splits dest: length_prefix_Inl)
next
  case (Lst xs)
  show ?case
  proof (cases "collect (map encode_raw xs)")
    case (Inl e')
    then have "Inl e' \<in> set (map encode_raw xs)" by (rule collect_Inl)
    then obtain x where "x \<in> set xs" "encode_raw x = Inl e'" by auto
    then have "e' = length_overflow" by (rule Lst.IH)
    with Lst.prems Inl show ?thesis by simp
  next
    case (Inr es)
    with Lst.prems show ?thesis
      by (auto split: sum.splits dest: length_prefix_Inl)
  qed
qed

lemma length_prefix_ok:
  assumes "len < 256 ^ 8"
  shows "\<exists>p. length_prefix len offset = Inr p \<and> length p \<le> 9"
proof (cases "len < 56")
  case True
  then show ?thesis by (simp add: length_prefix_short)
next
  case False
  then have "56 \<le> len" by simp
  moreover have "length (be_digits len) \<le> 8"
    using assms by (rule length_be_digits)
  ultimately show ?thesis
    using assms by (simp add: length_prefix_long)
qed

lemma collect_ok:
  assumes "\<And>x. x \<in> set xs \<Longrightarrow> \<exists>e. f x = Inr e \<and> length e \<le> g x"
  shows "\<exists>es. collect (map f xs) = Inr es \<and> length (concat es) \<le> sum_list (map g xs)"
  using assms
proof (induction xs)
  case Nil
  then show ?case by simp
next
  case (Cons x xs)
  from Cons.prems obtain e where e: "f x = Inr e" "length e \<le> g x" by auto
  from Cons obtain es where es: "collect (map f xs) = Inr es"
    "length (concat es) \<le> sum_list (map g xs)" by auto
  from e es show ?case by simp
qed

lemma encode_raw_ok:
  "enc_size x < 256 ^ 8 \<Longrightarrow> \<exists>e. encode_raw x = Inr e \<and> length e \<le> enc_size x"
proof (induction x)
  case (Str bs)
  then have "length bs < 256 ^ 8" by simp
  then obtain p where "length_prefix (length bs) 128 = Inr p" "length p \<le> 9"
    using length_prefix_ok by blast
  then show ?case by auto
next
  case (Lst xs)
  have small: "enc_size x < 256 ^ 8" if "x \<in> set xs" for x
  proof -
    have "enc_size x \<le> sum_list (map enc_size xs)"
      using that by (simp add: member_le_sum_list)
    with Lst.prems show ?thesis by simp
  qed
  have "\<exists>es. collect (map encode_raw xs) = Inr es
          \<and> length (concat es) \<le> sum_list (map enc_size xs)"
    by (rule collect_ok) (use Lst.IH small in blast)
  then obtain es where es: "collect (map encode_raw xs) = Inr es"
    "length (concat es) \<le> sum_list (map enc_size xs)" by blast
  with Lst.prems have "length (concat es) < 256 ^ 8" by simp
  then obtain p where "length_prefix (length (concat es)) 192 = Inr p" "length p \<le> 9"
    using length_prefix_ok by blast
  with es show ?case by simp
qed

lemma rlp_roundtrip:
  assumes "conforms D s v" and "rlp_encode D s v = Inr bs"
  shows "rlp_decode D s bs = Inr (freeze v)"
proof -
  from assms(1) obtain it where it: "serialize D s v = Inr it"
    "deserialize D s it = Inr (freeze v)"
    using serialize_deserialize(1) by blast
  with assms(2) have "encode_raw it = Inr bs"
    by (simp add: rlp_encode_def)
  then have "decode_raw bs = Inr it"
    by (rule decode_raw_encode_raw)
  with it(2) show ?thesis
    by (simp add: rlp_decode_def)
qed

lemma rlp_encode_conforms:
  assumes "conforms D s v"
  shows "rlp_encode D s v = Inl length_overflow \<or> (\<exists>bs. rlp_encode D s v = Inr bs)"
proof -
  from assms obtain it where it: "serialize D s v = Inr it"
    using serialize_deserialize(1) by blast
  show ?thesis
  proof (cases "encode_raw it")
    case (Inl e)
    then have "e = length_overflow" by (rule encode_raw_Inl)
    with Inl it show ?thesis by (simp add: rlp_encode_def)
  next
    case (Inr bs)
    with it show ?thesis by (simp add: rlp_encode_def)
  qed
qed

lemma those_map_Some: "those (map (\<lambda>x. Some (f x)) xs) = Some (map f xs)"
  by (induction xs) simp_all

lemma those_length: "those os = Some xs \<Longrightarrow> length xs = length os"
  by (induction os arbitrary: xs) (auto split: option.splits)

lemma dict_values_length: "dict_values flds d = Some vs \<Longrightarrow> length vs = length flds"
  by (auto simp: dict_values_def dest: those_length split: if_splits)

lemma map_of_keys:
  "distinct (map fst d) \<Longrightarrow> map (map_of d) (map fst d) = map (\<lambda>kv. Some (snd kv)) d"
proof (induction d)
  case Nil
  then show ?case by simp
next
  case (Cons kv d)
  have "map_of (kv # d) k = map_of d k" if "k \<in> set (map fst d)" for k
  proof -
    from that Cons.prems have "k \<noteq> fst kv" by (auto simp: image_iff)
    then show ?thesis by (cases kv) simp
  qed
  then have "map (map_of (kv # d)) (map fst d) = map (map_of d) (map fst d)"
    by (intro map_cong) simp_all
  moreover have "map_of (kv # d) (fst kv) = Some (snd kv)"
    by (cases kv) simp
  ultimately show ?case
    using Cons by simp
qed

lemma dict_values_in_order:
  assumes "map fst d = map fst flds" and "distinct (map fst flds)"
  shows "dict_values flds d = Some (map snd d)"
proof -
  have "map (\<lambda>f. map_of d (fst f)) flds = map (map_of d) (map fst flds)"
    by (simp add: comp_def)
  also have "\<dots> = map (\<lambda>kv. Some (snd kv)) d"
    using assms map_of_keys [of d] by simp
  finally have "those (map (\<lambda>f. map_of d (fst f)) flds) = Some (map snd d)"
    by (simp only: those_map_Some)
  then show ?thesis
    using assms by (simp add: dict_values_def)
qed

lemma zip_fst_fixed:
  "map g (map snd d) = map snd d \<Longrightarrow> zip (map fst d) (map g (map snd d)) = d"
  by (induction d) auto

lemma zip_fst_snd: "zip (map fst d) (map snd d) = d"
  by (induction d) auto

lemma distinct_field_names:
  "structure c = FieldList flds \<Longrightarrow> distinct (map fst flds)"
  by (cases c) auto

lemma encode_body:
  "encode D c off v = Inr (h, b) \<Longrightarrow>
   encode_payload D c v = Inr b \<and> 0 \<le> off + cmd_id c \<and> h = be_digits (nat (off + cmd_id c))"
  by (auto simp: encode_def Let_def split: if_splits sum.splits)

lemma header_cmd_id_encode:
  "encode D c off v = Inr (h, b) \<Longrightarrow> header_cmd_id h = off + cmd_id c"
  by (auto simp: header_cmd_id_def big_endian_to_int_be_digits dest!: encode_body)

lemma payload_roundtrip:
  assumes "conforms_payload D c v" and "encode_payload D c v = Inr b"
  shows "decode_payload D c b = Inr (canonical c v)"
proof (cases "structure c")
  case (Sedes s)
  with assms have "conforms D s v" "rlp_encode D s v = Inr b"
    by (simp_all add: conforms_payload_def encode_payload_def)
  then have "rlp_decode D s b = Inr (freeze v)" by (rule rlp_roundtrip)
  with Sedes show ?thesis
    by (simp add: decode_payload_def canonical_def)
next
  case (FieldList flds)
  with assms(1) obtain d vs where v: "v = PyDict d" and vs: "dict_values flds d = Some vs"
    and c: "conforms D (List_sedes (map snd flds)) (PyList vs)"
    by (auto simp: conforms_payload_def split: pyval.splits option.splits)
  from assms(2) FieldList v vs have "rlp_encode D (List_sedes (map snd flds)) (PyList vs) = Inr b"
    by (simp add: encode_payload_def)
  with c have "rlp_decode D (List_sedes (map snd flds)) b = Inr (freeze (PyList vs))"
    by (rule rlp_roundtrip)
  with FieldList v vs show ?thesis
    by (simp add: decode_payload_def canonical_def)
qed

lemma canonical_fixed:
  assumes "in_canonical_form c v"
  shows "canonical c v = v"
proof (cases "structure c")
  case (Sedes s)
  with assms show ?thesis
    by (simp add: in_canonical_form_def canonical_def)
next
  case (FieldList flds)
  with assms obtain d where v: "v = PyDict d" and k: "map fst d = map fst flds"
    and f: "map freeze (map snd d) = map snd d"
    by (auto simp: in_canonical_form_def split: pyval.splits)
  have "dict_values flds d = Some (map snd d)"
    using k FieldList by (intro dict_values_in_order distinct_field_names)
  moreover have "zip (map fst d) (map freeze (map snd d)) = d"
    using f by (rule zip_fst_fixed)
  ultimately show ?thesis
    using FieldList v by (simp add: canonical_def flip: k)
qed

lemma command_roundtrip:
  assumes "conforms_payload D c v" and "encode D c off v = Inr (h, b)"
  shows "decode D c b = Inr (canonical c v)"
  using assms by (auto simp: decode_def dest!: encode_body intro: payload_roundtrip)

lemma encode_conforms:
  assumes "conforms_payload D c v" and "0 \<le> off + cmd_id c"
  shows "encode D c off v = Inl length_overflow \<or> (\<exists>h b. encode D c off v = Inr (h, b))"
proof -
  have "encode_payload D c v = Inl length_overflow \<or> (\<exists>b. encode_payload D c v = Inr b)"
  proof (cases "structure c")
    case (Sedes s)
    with assms(1) have "conforms D s v" by (simp add: conforms_payload_def)
    then show ?thesis
      using rlp_encode_conforms [of D s v] Sedes by (simp add: encode_payload_def)
  next
    case (FieldList flds)
    with assms(1) obtain d vs where v: "v = PyDict d" and vs: "dict_values flds d = Some vs"
      and c: "conforms D (List_sedes (map snd flds)) (PyList vs)"
      by (auto simp: conforms_payload_def split: pyval.splits option.splits)
    show ?thesis
      using rlp_encode_conforms [OF c] FieldList v vs by (simp add: encode_payload_def)
  qed
  with assms(2) show ?thesis
    by (auto simp: encode_def Let_def)
qed

section \<open>The block headers request\<close>

lemma ceiling_message:
  "''Cannot ask for more than '' @ str_int MAX_HEADERS_FETCH @ '' block headers in a single request''
   = ''Cannot ask for more than 192 block headers in a single request''"
  by (simp add: str_int_def MAX_HEADERS_FETCH_def str_nat.simps digit_chars_def)

lemma length_be_digits_256:
  assumes "0 \<le> n" "n < 2 ^ 256"
  shows "length (be_digits (nat n)) \<le> 32"
proof -
  have "(256::nat) ^ 32 = 2 ^ 256" by simp
  moreover have "nat n < 2 ^ 256"
    using assms by (simp add: nat_less_iff)
  ultimately have "nat n < 256 ^ 32" by simp
  then show ?thesis by (rule length_be_digits)
qed

lemma block_identifier_serialize:
  assumes "valid_block_identifier b"
  shows "\<exists>bs. HashOrNumber_serialize (block_identifier_value b) = Inr (Str bs) \<and> length bs \<le> 32"
proof (cases b)
  case (BlockNumber n)
  with assms have "0 \<le> n" "n < 2 ^ 248" by (simp_all add: valid_block_identifier_def)
  then have "length (be_digits (nat n)) \<le> 31" by (rule length_be_digits_248)
  with \<open>0 \<le> n\<close> BlockNumber show ?thesis
    by (simp add: HashOrNumber_serialize_def)
next
  case (Hash32 h)
  with assms show ?thesis
    by (simp add: HashOrNumber_serialize_def valid_block_identifier_def)
qed

lemma get_block_headers_dict_values:
  "dict_values [(''block_number_or_hash'', HashOrNumber), (''max_headers'', big_endian_int),
                (''skip'', big_endian_int), (''reverse'', boolean)]
     [(''block_number_or_hash'', v1), (''max_headers'', v2), (''skip'', v3), (''reverse'', v4)]
   = Some [v1, v2, v3, v4]"
  by (simp add: dict_values_def)

lemma get_block_headers_conforms:
  assumes "valid_block_identifier b" "0 \<le> m" "0 \<le> skip"
  shows "conforms_payload D GetBlockHeaders (get_block_headers_data b m skip reverse)"
    and "in_canonical_form GetBlockHeaders (get_block_headers_data b m skip reverse :: 'a pyval)"
  using assms
  by (cases b; simp add: conforms_payload_def in_canonical_form_def get_block_headers_data_def
        get_block_headers_dict_values valid_block_identifier_def)+

lemma get_block_headers_encode_ok:
  assumes "valid_block_identifier b" "0 \<le> m" "m < 2 ^ 256" "0 \<le> skip" "skip < 2 ^ 256"
    and "0 \<le> off"
  shows "\<exists>h body. encode D GetBlockHeaders off (get_block_headers_data b m skip reverse) = Inr (h, body)"
proof -
  from assms(1) obtain bs where bs: "HashOrNumber_serialize (block_identifier_value b :: 'a pyval) = Inr (Str bs)"
    "length bs \<le> 32"
    using block_identifier_serialize by blast
  let ?it = "Lst [Str bs, Str (be_digits (nat m)), Str (be_digits (nat skip)),
                  Str (if reverse then [1] else [])]"
  have ser: "serialize D (List_sedes [HashOrNumber, big_endian_int, big_endian_int, boolean])
               (PyList [block_identifier_value b, PyInt m, PyInt skip, PyBool reverse]) = Inr ?it"
    using bs(1) assms by simp
  have "length (be_digits (nat m)) \<le> 32" "length (be_digits (nat skip)) \<le> 32"
    using assms by (simp_all add: length_be_digits_256)
  with bs(2) have "enc_size ?it \<le> 200" by simp
  also have "\<dots> < (256::nat) ^ 8" by simp
  finally obtain e where "encode_raw ?it = Inr e"
    using encode_raw_ok by blast
  with ser assms(6) show ?thesis
    by (simp add: encode_def encode_payload_def rlp_encode_def get_block_headers_data_def
        get_block_headers_dict_values)
qed

lemma get_block_headers_negative:
  assumes "m < 0 \<or> skip < 0" and "valid_block_identifier b" and "0 \<le> off"
  shows "encode D GetBlockHeaders off (get_block_headers_data b m skip reverse) = Inl SchemaMismatch"
proof -
  from assms(2) obtain bs where bs: "HashOrNumber_serialize (block_identifier_value b :: 'a pyval) = Inr (Str bs)"
    using block_identifier_serialize by blast
  have "serialize D (List_sedes [HashOrNumber, big_endian_int, big_endian_int, boolean])
               (PyList [block_identifier_value b, PyInt m, PyInt skip, PyBool reverse])
        = Inl SchemaMismatch"
    using bs assms(1) by auto
  with assms(3) show ?thesis
    by (simp add: encode_def encode_payload_def rlp_encode_def get_block_headers_data_def
        get_block_headers_dict_values)
qed

lemma get_block_headers_sent:
  assumes "valid_block_identifier b" "0 \<le> m" "m < 2 ^ 256" "0 \<le> skip" "skip < 2 ^ 256"
    and "0 \<le> off"
  shows "\<exists>h body. encode D GetBlockHeaders off (get_block_headers_data b m skip reverse) = Inr (h, body)
           \<and> header_cmd_id h = off + 3
           \<and> decode D GetBlockHeaders body = Inr (get_block_headers_data b m skip reverse)"
proof -
  let ?v = "get_block_headers_data b m skip reverse :: 'a pyval"
  from assms obtain h body where e: "encode D GetBlockHeaders off ?v = Inr (h, body)"
    using get_block_headers_encode_ok by blast
  have c: "conforms_payload D GetBlockHeaders ?v" "in_canonical_form GetBlockHeaders ?v"
    using assms by (simp_all add: get_block_headers_conforms)
  from c(1) e have "decode D GetBlockHeaders body = Inr (canonical GetBlockHeaders ?v)"
    by (rule command_roundtrip)
  moreover have "canonical GetBlockHeaders ?v = ?v"
    using c(2) by (rule canonical_fixed)
  moreover have "header_cmd_id h = off + 3"
    using header_cmd_id_encode [OF e] by simp
  ultimately show ?thesis using e by simp
qed

lemma send_get_block_headers_below:
  "max_headers \<le> 192 \<Longrightarrow>
   send_get_block_headers D self b max_headers skip reverse =
     (case encode D GetBlockHeaders (cmd_id_offset self)
             (get_block_headers_data b max_headers skip reverse) of
        Inl e \<Rightarrow> Inl e
      | Inr (header, body) \<Rightarrow> Inr (send self header body))"
  by (simp add: send_get_block_headers_def MAX_HEADERS_FETCH_def get_block_headers_data_def)

lemma send_get_block_headers_above:
  "192 < max_headers \<Longrightarrow>
   send_get_block_headers D self b max_headers skip reverse =
     Inl (ValueError ''Cannot ask for more than 192 block headers in a single request'')"
  unfolding send_get_block_headers_def ceiling_message
  by (simp add: MAX_HEADERS_FETCH_def)

lemma serialize_plain_error:
  "serialize_zip D [HashOrNumber, big_endian_int, big_endian_int, boolean] [v1, PyInt m, PyInt k, PyBool r] = Inl e
   \<Longrightarrow> e = SchemaMismatch"
  by (cases v1) (auto simp: HashOrNumber_serialize_def split: if_splits sum.splits)

lemma encode_Inl:
  "encode D c off v = Inl e \<Longrightarrow> e = SchemaMismatch \<or> encode_payload D c v = Inl e"
  by (auto simp: encode_def Let_def split: if_splits sum.splits)

lemma rlp_encode_Inl:
  "rlp_encode D s v = Inl e \<Longrightarrow> serialize D s v = Inl e \<or> e = length_overflow"
  by (auto simp: rlp_encode_def split: sum.splits dest: encode_raw_Inl)

lemma get_block_headers_payload:
  "encode_payload D GetBlockHeaders (get_block_headers_data b m skip reverse) =
     rlp_encode D (List_sedes [HashOrNumber, big_endian_int, big_endian_int, boolean])
       (PyList [block_identifier_value b, PyInt m, PyInt skip, PyBool reverse])"
  by (simp add: encode_payload_def get_block_headers_data_def get_block_headers_dict_values)

lemma get_block_headers_errors:
  assumes "encode D GetBlockHeaders off (get_block_headers_data b m skip reverse) = Inl e"
  shows "e = SchemaMismatch \<or> e = length_overflow"
proof -
  let ?vs = "[block_identifier_value b, PyInt m, PyInt skip, PyBool reverse] :: 'a pyval list"
  let ?ss = "[HashOrNumber, big_endian_int, big_endian_int, boolean]"
  from assms consider "e = SchemaMismatch" | "e = length_overflow"
    | "serialize D (List_sedes ?ss) (PyList ?vs) = Inl e"
    using encode_Inl [OF assms] rlp_encode_Inl [of D "List_sedes ?ss" "PyList ?vs" e]
    by (auto simp: get_block_headers_payload)
  then show ?thesis
  proof cases
    case 3
    moreover have "serialize D (List_sedes ?ss) (PyList ?vs) =
        (case serialize_zip D ?ss ?vs of Inl e \<Rightarrow> Inl e | Inr its \<Rightarrow> Inr (Lst its))"
      by (simp only: serialize.simps is_sequence.simps option.case)
    ultimately have "serialize_zip D ?ss ?vs = Inl e"
      by (cases "serialize_zip D ?ss ?vs") (simp_all only: sum.case sum.inject sum.distinct)
    then have "e = SchemaMismatch" by (rule serialize_plain_error)
    then show ?thesis ..
  qed simp_all
qed

lemma ceiling_not_codec_error:
  "ceiling_exceeded \<noteq> SchemaMismatch" "ceiling_exceeded \<noteq> length_overflow"
  by (simp_all add: ceiling_exceeded_def length_overflow_def)

lemma send_get_block_headers_ceiling_iff:
  "send_get_block_headers D self b max_headers skip reverse = Inl ceiling_exceeded
   \<longleftrightarrow> 192 < max_headers"
proof (cases "192 < max_headers")
  case True
  then show ?thesis
    by (simp add: send_get_block_headers_above ceiling_exceeded_def)
next
  case False
  then have le: "max_headers \<le> 192" by simp
  have "send_get_block_headers D self b max_headers skip reverse \<noteq> Inl ceiling_exceeded"
  proof
    assume a: "send_get_block_headers D self b max_headers skip reverse = Inl ceiling_exceeded"
    then have "encode D GetBlockHeaders (cmd_id_offset self)
                 (get_block_headers_data b max_headers skip reverse) = Inl ceiling_exceeded"
      unfolding send_get_block_headers_below [OF le]
      by (simp split: sum.splits prod.splits)
    then have "ceiling_exceeded = SchemaMismatch \<or> ceiling_exceeded = length_overflow"
      by (rule get_block_headers_errors)
    then show False
      using ceiling_not_codec_error by simp
  qed
  with False show ?thesis by simp
qed

lemma send_get_block_headers_ok:
  assumes "max_headers \<le> 192" "valid_block_identifier b" "0 \<le> max_headers"
    "0 \<le> skip" "skip < 2 ^ 256" "0 \<le> cmd_id_offset self"
  shows "\<exists>header body.
           send_get_block_headers D self b max_headers skip reverse = Inr (send self header body)
           \<and> header_cmd_id header = cmd_id_offset self + 3
           \<and> decode D GetBlockHeaders body = Inr (get_block_headers_data b max_headers skip reverse)"
proof -
  have "max_headers < 2 ^ 256" using assms(1) by simp
  with assms obtain h body where
    "encode D GetBlockHeaders (cmd_id_offset self)
       (get_block_headers_data b max_headers skip reverse) = Inr (h, body)"
    "header_cmd_id h = cmd_id_offset self + 3"
    "decode D GetBlockHeaders body = Inr (get_block_headers_data b max_headers skip reverse)"
    using get_block_headers_sent [of b max_headers skip "cmd_id_offset self" D reverse] by blast
  then show ?thesis
    by (intro exI [of _ h] exI [of _ body])
      (simp add: send_get_block_headers_below [OF assms(1)])
qed

lemma sent_send: "sent (peer (send self header body)) = sent (peer self) @ [(header, body)]"
  by (simp add: send_def)

lemma send_get_block_headers_errors:
  assumes "max_headers \<le> 192"
    and "send_get_block_headers D self b max_headers skip reverse = Inl e"
  shows "e = SchemaMismatch \<or> e = length_overflow"
proof -
  from assms(2) have "encode D GetBlockHeaders (cmd_id_offset self)
        (get_block_headers_data b max_headers skip reverse) = Inl e"
    unfolding send_get_block_headers_below [OF assms(1)]
    by (simp split: sum.splits prod.splits)
  then show ?thesis by (rule get_block_headers_errors)
qed

lemma send_get_block_headers_negative:
  assumes "max_headers \<le> 192" "max_headers < 0 \<or> skip < 0" "valid_block_identifier b"
    "0 \<le> cmd_id_offset self"
  shows "send_get_block_headers D self b max_headers skip reverse = Inl SchemaMismatch"
  using get_block_headers_negative [OF assms(2,3,4), of D reverse]
  by (simp add: send_get_block_headers_below [OF assms(1)])

lemma serialize_each_bytes: "serialize_each D binary (map PyBytes hs) = Inr (map Str hs)"
  by (induction hs) simp_all

lemma conforms_each_bytes: "conforms_each D binary (map PyBytes hs)"
  by (induction hs) simp_all

lemma freeze_bytes: "map freeze (map PyBytes hs) = map PyBytes hs"
  by (induction hs) simp_all

lemma enc_size_bytes: "enc_size (Lst (map Str hs)) = hashes_size hs"
  by (simp add: hashes_size_def comp_def)

lemma sedes_command_sent:
  assumes "structure c = Sedes s" "conforms D s v" "serialize D s v = Inr it"
    "enc_size it < 256 ^ 8" "0 \<le> off + cmd_id c"
  shows "\<exists>h b. encode D c off v = Inr (h, b) \<and> header_cmd_id h = off + cmd_id c
           \<and> decode D c b = Inr (freeze v)"
proof -
  from assms(4) obtain e where e: "encode_raw it = Inr e"
    using encode_raw_ok by blast
  with assms(1,3,5) have enc: "encode D c off v = Inr (be_digits (nat (off + cmd_id c)), e)"
    by (simp add: encode_def encode_payload_def rlp_encode_def)
  have "conforms_payload D c v"
    using assms(1,2) by (simp add: conforms_payload_def)
  then have "decode D c e = Inr (canonical c v)"
    using enc by (rule command_roundtrip)
  moreover have "canonical c v = freeze v"
    using assms(1) by (simp add: canonical_def)
  moreover have "header_cmd_id (be_digits (nat (off + cmd_id c))) = off + cmd_id c"
    using enc by (rule header_cmd_id_encode)
  ultimately show ?thesis using enc by simp
qed

lemma hashes_sent:
  assumes "structure c = Sedes (CountableList binary)" "hashes_size hs < 256 ^ 8"
    "0 \<le> off + cmd_id c"
  shows "\<exists>h b. encode D c off (PyList (map PyBytes hs)) = Inr (h, b)
           \<and> header_cmd_id h = off + cmd_id c
           \<and> decode D c b = Inr (PyTuple (map PyBytes hs))"
proof -
  have c: "conforms D (CountableList binary) (PyList (map PyBytes hs))"
    by (simp add: conforms_each_bytes)
  have s: "serialize D (CountableList binary) (PyList (map PyBytes hs))
      = Inr (Lst (map Str hs))"
    by (simp add: serialize_each_bytes)
  have z: "enc_size (Lst (map Str hs)) < 256 ^ 8"
    using assms(2) by (simp only: enc_size_bytes)
  have f: "freeze (PyList (map PyBytes hs)) = PyTuple (map PyBytes hs)"
    by (simp add: freeze_bytes)
  from sedes_command_sent [OF assms(1) c s z assms(3)] show ?thesis
    unfolding f .
qed

lemma hashes_errors:
  assumes "structure c = Sedes (CountableList binary)"
    and "encode D c off (PyList (map PyBytes hs)) = Inl e"
  shows "e = SchemaMismatch \<or> e = length_overflow"
proof -
  have ser: "serialize D (CountableList binary) (PyList (map PyBytes hs)) = Inr (Lst (map Str hs))"
    by (simp add: serialize_each_bytes)
  from encode_Inl [OF assms(2)] show ?thesis
  proof
    assume "encode_payload D c (PyList (map PyBytes hs)) = Inl e"
    then have "rlp_encode D (CountableList binary) (PyList (map PyBytes hs)) = Inl e"
      using assms(1) by (simp add: encode_payload_def)
    then show ?thesis
      using rlp_encode_Inl [of D "CountableList binary" "PyList (map PyBytes hs)" e] ser
      by simp
  qed simp
qed

lemma send_result_error:
  "(case r of Inl e \<Rightarrow> Inl e | Inr (header, body) \<Rightarrow> Inr (send self header body)) = Inl e
   \<Longrightarrow> r = Inl e"
  by (simp split: sum.splits prod.splits)

lemma send_result_ok:
  "r = Inr (h, b) \<Longrightarrow>
   (case r of Inl e \<Rightarrow> Inl e | Inr (header, body) \<Rightarrow> Inr (send self header body))
     = Inr (send self h b)"
  by simp

lemma send_result_Inr:
  assumes "(case encode D c off v of Inl e \<Rightarrow> Inl e
            | Inr (header, body) \<Rightarrow> Inr (send self header body)) = Inr self'"
  shows "\<exists>header body. encode D c off v = Inr (header, body) \<and> self' = send self header body
           \<and> sent (peer self') = sent (peer self) @ [(header, body)]
           \<and> header_cmd_id header = off + cmd_id c"
proof (cases "encode D c off v")
  case (Inl e)
  with assms show ?thesis by simp
next
  case (Inr hb)
  obtain h b where hb: "hb = (h, b)" by (cases hb)
  with Inr have e: "encode D c off v = Inr (h, b)" by simp
  with assms have "self' = send self h b" by simp
  moreover have "header_cmd_id h = off + cmd_id c"
    using e by (rule header_cmd_id_encode)
  ultimately show ?thesis
    using e by (intro exI [of _ h] exI [of _ b]) (simp add: sent_send)
qed

lemma send_get_block_headers_Inr:
  assumes "send_get_block_headers D self b m skip reverse = Inr self'"
  shows "\<exists>header body. sent (peer self') = sent (peer self) @ [(header, body)]
           \<and> header_cmd_id header = cmd_id_offset self + 3"
proof -
  have "m \<le> 192"
    using assms send_get_block_headers_above [of m D self b skip reverse]
    by (cases "192 < m") simp_all
  with assms have "(case encode D GetBlockHeaders (cmd_id_offset self)
                      (get_block_headers_data b m skip reverse) of
                 Inl e \<Rightarrow> Inl e
               | Inr (header, body) \<Rightarrow> Inr (send self header body)) = Inr self'"
    by (simp add: send_get_block_headers_below)
  from send_result_Inr [OF this] show ?thesis by auto
qed

lemma status_dict_values:
  "dict_values [(''protocol_version'', big_endian_int), (''network_id'', big_endian_int),
                (''td'', big_endian_int), (''best_hash'', binary), (''genesis_hash'', binary)]
     [(''protocol_version'', v1), (''network_id'', v2), (''td'', v3), (''best_hash'', v4),
      (''genesis_hash'', v5)]
   = Some [v1, v2, v3, v4, v5]"
  by (simp add: dict_values_def)

lemma send_handshake_eq:
  "send_handshake D self head_info =
     (case encode D Status (cmd_id_offset self)
             (status_message (network_id (peer self)) head_info) of
        Inl e \<Rightarrow> Inl e
      | Inr (header, body) \<Rightarrow> Inr (send self header body))"
  by (simp add: send_handshake_def status_message_def version_def)

lemma status_payload:
  "encode_payload D Status (status_message net head_info) =
     rlp_encode D (List_sedes [big_endian_int, big_endian_int, big_endian_int, binary, binary])
       (PyList [PyInt 63, PyInt net, PyInt (total_difficulty head_info),
                PyBytes (block_hash head_info), PyBytes (genesis_hash head_info)])"
  by (simp add: encode_payload_def status_message_def status_dict_values)

lemma status_serialize:
  "serialize D (List_sedes [big_endian_int, big_endian_int, big_endian_int, binary, binary])
     (PyList [PyInt 63, PyInt net, PyInt td, PyBytes bh, PyBytes gh]) =
   (if 0 \<le> net \<and> 0 \<le> td
    then Inr (Lst [Str (be_digits 63), Str (be_digits (nat net)), Str (be_digits (nat td)),
                   Str bh, Str gh])
    else Inl SchemaMismatch)"
  by simp

lemma status_conforms:
  assumes "0 \<le> net" "0 \<le> total_difficulty head_info"
  shows "conforms_payload D Status (status_message net head_info)"
    and "in_canonical_form Status (status_message net head_info :: 'a pyval)"
  using assms
  by (simp_all add: conforms_payload_def in_canonical_form_def status_message_def
      status_dict_values)

lemma status_encoded_unsigned:
  assumes "encode D Status off (status_message net head_info) = Inr (h, b)"
  shows "0 \<le> net \<and> 0 \<le> total_difficulty head_info"
proof (rule ccontr)
  assume "\<not> (0 \<le> net \<and> 0 \<le> total_difficulty head_info)"
  then have "serialize D (List_sedes [big_endian_int, big_endian_int, big_endian_int, binary, binary])
       (PyList [PyInt 63, PyInt net, PyInt (total_difficulty head_info),
                PyBytes (block_hash head_info), PyBytes (genesis_hash head_info)])
     = Inl SchemaMismatch"
    by (simp only: status_serialize if_False)
  then have "encode_payload D Status (status_message net head_info) = Inl SchemaMismatch"
    by (simp only: status_payload rlp_encode_def sum.case)
  with encode_body [OF assms] show False by simp
qed

lemma status_decoded:
  assumes "encode D Status off (status_message net head_info) = Inr (h, b)"
  shows "decode D Status b = Inr (status_message net head_info)"
proof -
  from assms have u: "0 \<le> net" "0 \<le> total_difficulty head_info"
    using status_encoded_unsigned by blast+
  then have "conforms_payload D Status (status_message net head_info)"
    by (rule status_conforms)
  then have "decode D Status b = Inr (canonical Status (status_message net head_info))"
    using assms by (rule command_roundtrip)
  moreover have "canonical Status (status_message net head_info :: 'a pyval)
      = status_message net head_info"
    using u by (intro canonical_fixed status_conforms)
  ultimately show ?thesis by simp
qed

lemma status_encode_ok:
  assumes "0 \<le> net" "net < 2 ^ 256" "0 \<le> total_difficulty head_info"
    "total_difficulty head_info < 2 ^ 256"
    "length (block_hash head_info) < 2 ^ 32" "length (genesis_hash head_info) < 2 ^ 32"
    "0 \<le> off"
  shows "\<exists>h b. encode D Status off (status_message net head_info) = Inr (h, b)"
proof -
  let ?it = "Lst [Str (be_digits 63), Str (be_digits (nat net)),
                  Str (be_digits (nat (total_difficulty head_info))),
                  Str (block_hash head_info), Str (genesis_hash head_info)]"
  have ser: "serialize D (List_sedes [big_endian_int, big_endian_int, big_endian_int, binary, binary])
       (PyList [PyInt 63, PyInt net, PyInt (total_difficulty head_info),
                PyBytes (block_hash head_info), PyBytes (genesis_hash head_info)]) = Inr ?it"
    using assms(1,3) by (simp only: status_serialize) simp
  have "length (be_digits 63) \<le> 32"
    by (rule length_be_digits) simp
  moreover have "length (be_digits (nat net)) \<le> 32"
    "length (be_digits (nat (total_difficulty head_info))) \<le> 32"
    using assms by (simp_all add: length_be_digits_256)
  ultimately have "enc_size ?it \<le> 2 * 2 ^ 32 + 200"
    using assms(5,6) by simp
  also have "\<dots> < (256::nat) ^ 8" by simp
  finally obtain e where "encode_raw ?it = Inr e"
    using encode_raw_ok by blast
  with ser assms(7) show ?thesis
    by (simp add: encode_def status_payload rlp_encode_def del: serialize.simps)
qed

lemma deserialize_each_headers:
  "deserialize_each D (Serializable k) its = Inr xs \<Longrightarrow>
   \<exists>objs. xs = map (PyObj k) objs"
proof (induction its arbitrary: xs)
  case Nil
  then show ?case by simp
next
  case (Cons it its)
  from Cons.prems obtain obj xs' where o: "dom_deserialize D k it = Inr obj"
    and xs': "deserialize_each D (Serializable k) its = Inr xs'" and xs: "xs = PyObj k obj # xs'"
    by (auto split: sum.splits)
  from Cons.IH [OF xs'] obtain objs where "xs' = map (PyObj k) objs" by blast
  with xs have "xs = map (PyObj k) (obj # objs)" by simp
  then show ?case by blast
qed

lemma decode_BlockHeaders_tuple:
  assumes "decode D BlockHeaders body = Inr msg"
  shows "\<exists>headers. msg = PyTuple (map (PyObj BlockHeader) headers)"
proof -
  from assms obtain it where "deserialize D (CountableList (Serializable BlockHeader)) it = Inr msg"
    by (auto simp: decode_def decode_payload_def rlp_decode_def split: sum.splits)
  then obtain its xs where "deserialize_each D (Serializable BlockHeader) its = Inr xs"
    "msg = PyTuple xs"
    by (cases it) (auto split: sum.splits)
  then show ?thesis
    using deserialize_each_headers by blast
qed

section \<open>The claims\<close>

text \<open>
  C2, as stated: the identifiers of the registered command kinds are contiguous from 0 up
  to the number of kinds minus one, and \<open>cmd_length\<close> is that number.  The registry holds
  twelve kinds (thirteen entries), identifier 8 is assigned to none of them although it is
  below twelve, and \<open>cmd_length\<close> is 17: the statement fails on the registry, whether the
  kinds are counted with or without the repeated entry.
\<close>

theorem C2_contiguous_counterexample:
  "\<not> (cmd_id ` set commands = {0 .. int (card (set commands)) - 1}
      \<and> cmd_length = int (card (set commands)))
   \<and> \<not> (cmd_id ` set commands = {0 .. int (length commands) - 1}
      \<and> cmd_length = int (length commands))"
proof -
  have "card (set commands) = 12"
    by (simp add: commands_def)
  moreover have "length commands = 13"
    by (simp add: commands_def)
  ultimately show ?thesis
    by (simp add: cmd_length_def)
qed

text \<open>
  C2, amended: the identifiers of the twelve registered kinds are exactly 0 to 7 and 13 to
  16, so the slots 8 to 12 are vacant; \<open>cmd_length\<close> is 17, one more than the largest
  identifier, and not the number of kinds.
\<close>

theorem C2_identifier_space:
  "cmd_id ` set commands = {0..7} \<union> {13..16}
   \<and> card (set commands) = 12
   \<and> cmd_length = Max (cmd_id ` set commands) + 1
   \<and> cmd_length = 17"
proof -
  have img: "cmd_id ` set commands = {0, 1, 2, 3, 4, 5, 6, 7, 13, 14, 15, 16}"
    by (simp add: commands_def insert_commute)
  have "Max (cmd_id ` set commands) = 16"
    unfolding img by simp
  moreover have "card (set commands) = 12"
    by (simp add: commands_def)
  ultimately show ?thesis
    using cmd_id_image by (simp add: cmd_length_def)
qed

text \<open>
  C9: every class in \<open>_commands\<close> has an identifier that is at least 0 and below
  \<open>cmd_length\<close> (17); two registered classes with the same identifier are the same class;
  the one repeated entry of the registry is \<open>BlockHeaders\<close>, at positions 4 and 5, with
  identifier 4, and the registry without that repetition has no class twice.
\<close>

theorem C9_registry_identifiers:
  "(\<forall>c \<in> set commands. 0 \<le> cmd_id c \<and> cmd_id c < cmd_length)
   \<and> cmd_length = 17
   \<and> (\<forall>c \<in> set commands. \<forall>c' \<in> set commands. cmd_id c = cmd_id c' \<longrightarrow> c = c')
   \<and> commands ! 4 = BlockHeaders \<and> commands ! 5 = BlockHeaders \<and> cmd_id BlockHeaders = 4
   \<and> distinct (take 5 commands @ drop 6 commands)
   \<and> distinct (map cmd_id (take 5 commands @ drop 6 commands))"
proof -
  have "distinct (take 5 commands @ drop 6 commands)"
    by (simp add: commands_def)
  moreover have "distinct (map cmd_id (take 5 commands @ drop 6 commands))"
    by (simp add: commands_def)
  moreover have "commands ! 4 = BlockHeaders \<and> commands ! 5 = BlockHeaders"
    by (simp add: commands_def)
  ultimately show ?thesis
    using cmd_id_range cmd_id_inj by (auto simp: cmd_length_def)
qed

theorem C9_registry_identifiers_witness:
  "GetNodeData \<in> set commands \<and> BlockHeaders \<in> set commands \<and> commands ! 5 \<in> set commands
   \<and> 0 \<le> cmd_id GetNodeData \<and> cmd_id GetNodeData < cmd_length
   \<and> cmd_id BlockHeaders = cmd_id (commands ! 5) \<and> BlockHeaders = commands ! 5"
proof -
  have m: "GetNodeData \<in> set commands" "BlockHeaders \<in> set commands"
    by (simp_all add: commands_def)
  have m5: "commands ! 5 \<in> set commands"
    by (simp add: commands_def)
  have e: "cmd_id BlockHeaders = cmd_id (commands ! 5)"
    by (simp add: commands_def)
  from C9_registry_identifiers m m5 e show ?thesis
    by blast
qed

text \<open>
  C1: \<open>send_get_block_headers\<close> fails with the ceiling error (the source's \<open>ValueError\<close>
  with its message, the spec's \<open>CeilingExceeded\<close>) exactly when \<open>max_headers\<close> is above
  192; in that case the call returns no protocol state, so nothing reaches the transport.
  With \<open>max_headers = 192\<close>, a start that is a block number or a 32-byte hash, an unsigned
  \<open>skip\<close> and an unsigned command offset, the call succeeds: exactly one header and body
  pair is appended to what the peer has sent, the header carries the offset plus 3, and the
  body decodes to the four values of the request.
\<close>

theorem C1_headers_ceiling:
  "(send_get_block_headers D self b max_headers skip reverse = Inl ceiling_exceeded
      \<longleftrightarrow> 192 < max_headers)
   \<and> (192 < max_headers \<longrightarrow>
        (\<nexists>self'. send_get_block_headers D self b max_headers skip reverse = Inr self'))
   \<and> (valid_block_identifier b \<and> 0 \<le> skip \<and> skip < 2 ^ 256 \<and> 0 \<le> cmd_id_offset self \<longrightarrow>
        (\<exists>header body.
           send_get_block_headers D self b 192 skip reverse = Inr (send self header body)
           \<and> sent (peer (send self header body)) = sent (peer self) @ [(header, body)]
           \<and> header_cmd_id header = cmd_id_offset self + 3
           \<and> decode D GetBlockHeaders body = Inr (get_block_headers_data b 192 skip reverse)))"
proof (intro conjI impI)
  show "send_get_block_headers D self b max_headers skip reverse = Inl ceiling_exceeded
      \<longleftrightarrow> 192 < max_headers"
    by (rule send_get_block_headers_ceiling_iff)
next
  assume "192 < max_headers"
  then show "\<nexists>self'. send_get_block_headers D self b max_headers skip reverse = Inr self'"
    by (simp add: send_get_block_headers_above)
next
  assume "valid_block_identifier b \<and> 0 \<le> skip \<and> skip < 2 ^ 256 \<and> 0 \<le> cmd_id_offset self"
  then show "\<exists>header body.
           send_get_block_headers D self b 192 skip reverse = Inr (send self header body)
           \<and> sent (peer (send self header body)) = sent (peer self) @ [(header, body)]
           \<and> header_cmd_id header = cmd_id_offset self + 3
           \<and> decode D GetBlockHeaders body = Inr (get_block_headers_data b 192 skip reverse)"
    using send_get_block_headers_ok [of 192 b skip self D reverse] by (simp add: sent_send)
qed

theorem C1_headers_ceiling_witness:
  "(192::int) < 193
   \<and> send_get_block_headers sample_codec sample_protocol (BlockNumber 42) 193 0 False
       = Inl ceiling_exceeded
   \<and> (\<nexists>self'. send_get_block_headers sample_codec sample_protocol (BlockNumber 42) 193 0 False
         = Inr self')
   \<and> valid_block_identifier (BlockNumber 42) \<and> (0::int) \<le> 0 \<and> (0::int) < 2 ^ 256
   \<and> 0 \<le> cmd_id_offset sample_protocol
   \<and> (\<exists>header body.
         send_get_block_headers sample_codec sample_protocol (BlockNumber 42) 192 0 False
           = Inr (send sample_protocol header body)
         \<and> sent (peer (send sample_protocol header body))
             = sent (peer sample_protocol) @ [(header, body)]
         \<and> header_cmd_id header = cmd_id_offset sample_protocol + 3
         \<and> decode sample_codec GetBlockHeaders body
             = Inr (get_block_headers_data (BlockNumber 42) 192 0 False))"
proof -
  have h: "valid_block_identifier (BlockNumber 42) \<and> (0::int) \<le> 0 \<and> (0::int) < 2 ^ 256
      \<and> 0 \<le> cmd_id_offset sample_protocol"
    by (simp add: valid_block_identifier_def sample_protocol_def)
  have g: "(192::int) < 193" by simp
  from C1_headers_ceiling [of sample_codec sample_protocol "BlockNumber 42" 193 0 False] h g
  show ?thesis by blast
qed

text \<open>
  C10, as stated: for every \<open>max_headers\<close> up to 192, negative values included, and every
  \<open>skip\<close>, the call encodes and sends the request without error.  With \<open>max_headers = -1\<close>,
  and with \<open>skip = -1\<close>, the call passes the ceiling check and then fails in the codec,
  whose unsigned integer kind takes no negative value; nothing is sent.
\<close>

theorem C10_negative_counterexample:
  "(-1::int) \<le> 192
   \<and> send_get_block_headers sample_codec sample_protocol (BlockNumber 0) (-1) 0 False
       = Inl SchemaMismatch
   \<and> send_get_block_headers sample_codec sample_protocol (BlockNumber 0) 10 (-1) False
       = Inl SchemaMismatch"
  by code_simp

text \<open>
  C10, amended: for every \<open>max_headers\<close> up to 192, the call raises no ceiling error and
  makes no check of its own: it can only fail in the codec (a value that does not fit the
  declared shape, or the length limit of the byte encoding).  For a start that is a block
  number or a 32-byte hash, \<open>skip\<close> below \<open>2^256\<close> and an unsigned command offset, the
  request is encoded and sent when \<open>max_headers\<close> and \<open>skip\<close> are both at least 0
  (so also for \<open>max_headers = 0\<close>), whatever \<open>reverse\<close> is, and the call fails with the
  codec's mismatch error when one of them is negative.
\<close>

theorem C10_headers_below_ceiling:
  assumes "max_headers \<le> 192"
  shows "send_get_block_headers D self b max_headers skip reverse \<noteq> Inl ceiling_exceeded
   \<and> (\<forall>e. send_get_block_headers D self b max_headers skip reverse = Inl e
          \<longrightarrow> e = SchemaMismatch \<or> e = length_overflow)
   \<and> (valid_block_identifier b \<and> skip < 2 ^ 256 \<and> 0 \<le> cmd_id_offset self \<longrightarrow>
        (0 \<le> max_headers \<and> 0 \<le> skip \<longrightarrow>
           (\<exists>header body.
              send_get_block_headers D self b max_headers skip reverse
                = Inr (send self header body)
              \<and> header_cmd_id header = cmd_id_offset self + 3
              \<and> decode D GetBlockHeaders body
                  = Inr (get_block_headers_data b max_headers skip reverse)))
        \<and> (max_headers < 0 \<or> skip < 0 \<longrightarrow>
             send_get_block_headers D self b max_headers skip reverse = Inl SchemaMismatch))"
proof (intro conjI impI allI)
  show "send_get_block_headers D self b max_headers skip reverse \<noteq> Inl ceiling_exceeded"
    using send_get_block_headers_errors [OF assms, of D self b skip reverse ceiling_exceeded]
      ceiling_not_codec_error by blast
next
  fix e
  assume "send_get_block_headers D self b max_headers skip reverse = Inl e"
  with assms show "e = SchemaMismatch \<or> e = length_overflow"
    by (rule send_get_block_headers_errors)
next
  assume "valid_block_identifier b \<and> skip < 2 ^ 256 \<and> 0 \<le> cmd_id_offset self"
    and "0 \<le> max_headers \<and> 0 \<le> skip"
  with assms show "\<exists>header body.
      send_get_block_headers D self b max_headers skip reverse = Inr (send self header body)
      \<and> header_cmd_id header = cmd_id_offset self + 3
      \<and> decode D GetBlockHeaders body = Inr (get_block_headers_data b max_headers skip reverse)"
    by (intro send_get_block_headers_ok) simp_all
next
  assume "valid_block_identifier b \<and> skip < 2 ^ 256 \<and> 0 \<le> cmd_id_offset self"
    and "max_headers < 0 \<or> skip < 0"
  with assms show "send_get_block_headers D self b max_headers skip reverse = Inl SchemaMismatch"
    by (intro send_get_block_headers_negative) simp_all
qed

theorem C10_headers_below_ceiling_witness:
  "(0::int) \<le> 192
   \<and> valid_block_identifier (Hash32 (replicate 32 7)) \<and> (5::int) < 2 ^ 256
   \<and> 0 \<le> cmd_id_offset sample_protocol \<and> (0::int) \<le> 0 \<and> (0::int) \<le> 5
   \<and> send_get_block_headers sample_codec sample_protocol (Hash32 (replicate 32 7)) 0 5 True
        \<noteq> Inl ceiling_exceeded
   \<and> (\<exists>header body.
          send_get_block_headers sample_codec sample_protocol (Hash32 (replicate 32 7)) 0 5 True
            = Inr (send sample_protocol header body)
          \<and> header_cmd_id header = cmd_id_offset sample_protocol + 3
          \<and> decode sample_codec GetBlockHeaders body
              = Inr (get_block_headers_data (Hash32 (replicate 32 7)) 0 5 True))"
proof -
  have h: "valid_block_identifier (Hash32 (replicate 32 7)) \<and> (5::int) < 2 ^ 256
      \<and> 0 \<le> cmd_id_offset sample_protocol"
    by (simp add: valid_block_identifier_def sample_protocol_def)
  have g: "(0::int) \<le> 192" "(0::int) \<le> 0 \<and> (0::int) \<le> 5" by simp_all
  from C10_headers_below_ceiling [OF g(1), of sample_codec sample_protocol
      "Hash32 (replicate 32 7)" 5 True] h g
  show ?thesis by blast
qed

text \<open>
  C7: the three requests that carry a list of hashes have no ceiling check.  For every list
  of byte strings, of any length, \<open>send_get_block_bodies\<close>, \<open>send_get_receipts\<close> and
  \<open>send_get_node_data\<close> never fail with the ceiling error: the only errors they can return
  are the codec's (a negative command identifier, or an encoding beyond the length limit
  \<open>256^8\<close> of the byte encoding).  Below that limit, and with an unsigned command offset,
  each of them encodes the list and hands exactly one header and body pair to the
  transport, and the body decodes to the same hashes in the same order; the list may be
  longer than 128, 256 or 384.
\<close>

theorem C7_hash_requests_unchecked:
  "(\<forall>e. send_get_block_bodies D self hs = Inl e
         \<longrightarrow> e \<noteq> ceiling_exceeded \<and> (e = SchemaMismatch \<or> e = length_overflow))
   \<and> (\<forall>e. send_get_receipts D self hs = Inl e
         \<longrightarrow> e \<noteq> ceiling_exceeded \<and> (e = SchemaMismatch \<or> e = length_overflow))
   \<and> (\<forall>e. send_get_node_data D self hs = Inl e
         \<longrightarrow> e \<noteq> ceiling_exceeded \<and> (e = SchemaMismatch \<or> e = length_overflow))
   \<and> (0 \<le> cmd_id_offset self \<and> hashes_size hs < 256 ^ 8 \<longrightarrow>
        (\<exists>header body. send_get_block_bodies D self hs = Inr (send self header body)
           \<and> decode D GetBlockBodies body = Inr (PyTuple (map PyBytes hs)))
        \<and> (\<exists>header body. send_get_receipts D self hs = Inr (send self header body)
           \<and> decode D GetReceipts body = Inr (PyTuple (map PyBytes hs)))
        \<and> (\<exists>header body. send_get_node_data D self hs = Inr (send self header body)
           \<and> decode D GetNodeData body = Inr (PyTuple (map PyBytes hs))))"
proof -
  have err: "e \<noteq> ceiling_exceeded \<and> (e = SchemaMismatch \<or> e = length_overflow)"
    if "structure c = Sedes (CountableList binary)"
      and "encode D c (cmd_id_offset self) (PyList (map PyBytes hs)) = Inl e" for c e
    using hashes_errors [OF that] ceiling_not_codec_error by auto
  have ok: "\<exists>header body.
        (case encode D c (cmd_id_offset self) (PyList (map PyBytes hs)) of
           Inl e \<Rightarrow> Inl e
         | Inr (header, body) \<Rightarrow> Inr (send self header body)) = Inr (send self header body)
        \<and> decode D c body = Inr (PyTuple (map PyBytes hs))"
    if "structure c = Sedes (CountableList binary)" "0 \<le> cmd_id c"
      and "0 \<le> cmd_id_offset self" "hashes_size hs < 256 ^ 8" for c
  proof -
    from that obtain h b where
      "encode D c (cmd_id_offset self) (PyList (map PyBytes hs)) = Inr (h, b)"
      "decode D c b = Inr (PyTuple (map PyBytes hs))"
      using hashes_sent [of c hs "cmd_id_offset self" D] by auto
    then show ?thesis
      by (intro exI [of _ h] exI [of _ b]) simp
  qed
  show ?thesis
    unfolding send_get_block_bodies_def send_get_receipts_def send_get_node_data_def
    using err [of GetBlockBodies] err [of GetReceipts] err [of GetNodeData]
      ok [of GetBlockBodies] ok [of GetReceipts] ok [of GetNodeData]
    by (auto dest!: send_result_error)
qed

theorem C7_hash_requests_unchecked_witness:
  "int (length (replicate 385 (replicate 32 (0::byte)))) > MAX_STATE_FETCH
   \<and> int (length (replicate 385 (replicate 32 (0::byte)))) > MAX_RECEIPTS_FETCH
   \<and> int (length (replicate 385 (replicate 32 (0::byte)))) > MAX_BODIES_FETCH
   \<and> 0 \<le> cmd_id_offset sample_protocol
   \<and> hashes_size (replicate 385 (replicate 32 0)) < 256 ^ 8
   \<and> (\<exists>header body.
         send_get_block_bodies sample_codec sample_protocol (replicate 385 (replicate 32 0))
           = Inr (send sample_protocol header body)
         \<and> decode sample_codec GetBlockBodies body
             = Inr (PyTuple (map PyBytes (replicate 385 (replicate 32 0)))))
   \<and> (\<exists>header body.
         send_get_receipts sample_codec sample_protocol (replicate 385 (replicate 32 0))
           = Inr (send sample_protocol header body)
         \<and> decode sample_codec GetReceipts body
             = Inr (PyTuple (map PyBytes (replicate 385 (replicate 32 0)))))
   \<and> (\<exists>header body.
         send_get_node_data sample_codec sample_protocol (replicate 385 (replicate 32 0))
           = Inr (send sample_protocol header body)
         \<and> decode sample_codec GetNodeData body
             = Inr (PyTuple (map PyBytes (replicate 385 (replicate 32 0)))))"
proof -
  have h: "0 \<le> cmd_id_offset sample_protocol
      \<and> hashes_size (replicate 385 (replicate 32 0)) < 256 ^ 8"
    by (simp add: sample_protocol_def hashes_size_def sum_list_replicate)
  have g: "int (length (replicate 385 (replicate 32 (0::byte)))) > MAX_STATE_FETCH"
    "int (length (replicate 385 (replicate 32 (0::byte)))) > MAX_RECEIPTS_FETCH"
    "int (length (replicate 385 (replicate 32 (0::byte)))) > MAX_BODIES_FETCH"
    by (simp_all add: MAX_STATE_FETCH_def MAX_RECEIPTS_FETCH_def MAX_BODIES_FETCH_def)
  from C7_hash_requests_unchecked [of sample_codec sample_protocol
      "replicate 385 (replicate 32 0)"] h g
  show ?thesis by blast
qed

text \<open>
  C6: whenever a send operation of the protocol object hands a message to the transport, the
  command identifier carried in the header of that message is the connection's offset plus
  the identifier of the command class the operation uses: 0 for the handshake, 2 for
  transactions, 3 and 4 for block headers, 5 and 6 for block bodies, 13 and 14 for node
  data, 15 and 16 for receipts.  The same holds for every registered command class,
  \<open>NewBlockHashes\<close> (1) and \<open>NewBlock\<close> (7) included, whenever its encoding succeeds.
\<close>

theorem C6_absolute_command_id:
  "(\<forall>self'. send_handshake D self head_info = Inr self' \<longrightarrow>
      (\<exists>header body. sent (peer self') = sent (peer self) @ [(header, body)]
         \<and> header_cmd_id header = cmd_id_offset self + 0))
   \<and> (\<forall>self'. send_transactions D self transactions = Inr self' \<longrightarrow>
      (\<exists>header body. sent (peer self') = sent (peer self) @ [(header, body)]
         \<and> header_cmd_id header = cmd_id_offset self + 2))
   \<and> (\<forall>self'. send_get_block_headers D self b max_headers skip reverse = Inr self' \<longrightarrow>
      (\<exists>header body. sent (peer self') = sent (peer self) @ [(header, body)]
         \<and> header_cmd_id header = cmd_id_offset self + 3))
   \<and> (\<forall>self'. send_block_headers D self headers = Inr self' \<longrightarrow>
      (\<exists>header body. sent (peer self') = sent (peer self) @ [(header, body)]
         \<and> header_cmd_id header = cmd_id_offset self + 4))
   \<and> (\<forall>self'. send_get_block_bodies D self block_hashes = Inr self' \<longrightarrow>
      (\<exists>header body. sent (peer self') = sent (peer self) @ [(header, body)]
         \<and> header_cmd_id header = cmd_id_offset self + 5))
   \<and> (\<forall>self'. send_block_bodies D self blocks = Inr self' \<longrightarrow>
      (\<exists>header body. sent (peer self') = sent (peer self) @ [(header, body)]
         \<and> header_cmd_id header = cmd_id_offset self + 6))
   \<and> (\<forall>self'. send_get_node_data D self node_hashes = Inr self' \<longrightarrow>
      (\<exists>header body. sent (peer self') = sent (peer self) @ [(header, body)]
         \<and> header_cmd_id header = cmd_id_offset self + 13))
   \<and> (\<forall>self'. send_node_data D self nodes = Inr self' \<longrightarrow>
      (\<exists>header body. sent (peer self') = sent (peer self) @ [(header, body)]
         \<and> header_cmd_id header = cmd_id_offset self + 14))
   \<and> (\<forall>self'. send_get_receipts D self receipt_hashes = Inr self' \<longrightarrow>
      (\<exists>header body. sent (peer self') = sent (peer self) @ [(header, body)]
         \<and> header_cmd_id header = cmd_id_offset self + 15))
   \<and> (\<forall>self'. send_receipts D self receipts = Inr self' \<longrightarrow>
      (\<exists>header body. sent (peer self') = sent (peer self) @ [(header, body)]
         \<and> header_cmd_id header = cmd_id_offset self + 16))
   \<and> (\<forall>c \<in> set commands. \<forall>data header body.
        encode D c (cmd_id_offset self) data = Inr (header, body) \<longrightarrow>
        header_cmd_id header = cmd_id_offset self + cmd_id c
        \<and> 0 \<le> cmd_id c \<and> cmd_id c \<le> 16)"
proof (intro conjI allI impI ballI)
  fix self' assume "send_handshake D self head_info = Inr self'"
  then show "\<exists>header body. sent (peer self') = sent (peer self) @ [(header, body)]
         \<and> header_cmd_id header = cmd_id_offset self + 0"
    unfolding send_handshake_def Let_def by (drule_tac send_result_Inr) auto
next
  fix self' assume "send_transactions D self transactions = Inr self'"
  then show "\<exists>header body. sent (peer self') = sent (peer self) @ [(header, body)]
         \<and> header_cmd_id header = cmd_id_offset self + 2"
    unfolding send_transactions_def by (drule_tac send_result_Inr) auto
next
  fix self' assume "send_get_block_headers D self b max_headers skip reverse = Inr self'"
  then show "\<exists>header body. sent (peer self') = sent (peer self) @ [(header, body)]
         \<and> header_cmd_id header = cmd_id_offset self + 3"
    by (rule send_get_block_headers_Inr)
next
  fix self' assume "send_block_headers D self headers = Inr self'"
  then show "\<exists>header body. sent (peer self') = sent (peer self) @ [(header, body)]
         \<and> header_cmd_id header = cmd_id_offset self + 4"
    unfolding send_block_headers_def by (drule_tac send_result_Inr) auto
next
  fix self' assume "send_get_block_bodies D self block_hashes = Inr self'"
  then show "\<exists>header body. sent (peer self') = sent (peer self) @ [(header, body)]
         \<and> header_cmd_id header = cmd_id_offset self + 5"
    unfolding send_get_block_bodies_def by (drule_tac send_result_Inr) auto
next
  fix self' assume "send_block_bodies D self blocks = Inr self'"
  then show "\<exists>header body. sent (peer self') = sent (peer self) @ [(header, body)]
         \<and> header_cmd_id header = cmd_id_offset self + 6"
    unfolding send_block_bodies_def by (drule_tac send_result_Inr) auto
next
  fix self' assume "send_get_node_data D self node_hashes = Inr self'"
  then show "\<exists>header body. sent (peer self') = sent (peer self) @ [(header, body)]
         \<and> header_cmd_id header = cmd_id_offset self + 13"
    unfolding send_get_node_data_def by (drule_tac send_result_Inr) auto
next
  fix self' assume "send_node_data D self nodes = Inr self'"
  then show "\<exists>header body. sent (peer self') = sent (peer self) @ [(header, body)]
         \<and> header_cmd_id header = cmd_id_offset self + 14"
    unfolding send_node_data_def by (drule_tac send_result_Inr) auto
next
  fix self' assume "send_get_receipts D self receipt_hashes = Inr self'"
  then show "\<exists>header body. sent (peer self') = sent (peer self) @ [(header, body)]
         \<and> header_cmd_id header = cmd_id_offset self + 15"
    unfolding send_get_receipts_def by (drule_tac send_result_Inr) auto
next
  fix self' assume "send_receipts D self receipts = Inr self'"
  then show "\<exists>header body. sent (peer self') = sent (peer self) @ [(header, body)]
         \<and> header_cmd_id header = cmd_id_offset self + 16"
    unfolding send_receipts_def by (drule_tac send_result_Inr) auto
next
  fix c data header body
  assume "encode D c (cmd_id_offset self) data = Inr (header, body)"
  then show "header_cmd_id header = cmd_id_offset self + cmd_id c"
    by (rule header_cmd_id_encode)
next
  fix c :: command
  show "0 \<le> cmd_id c" by (cases c) simp_all
next
  fix c :: command
  show "cmd_id c \<le> 16" by (cases c) simp_all
qed

theorem C6_absolute_command_id_witness:
  "send_get_node_data sample_codec sample_protocol [[1, 2]]
     = Inr (sample_protocol\<lparr>peer := \<lparr>network_id = 1, sent = [([29], [195, 130, 1, 2])]\<rparr>\<rparr>)
   \<and> (\<exists>header body.
         sent (peer (sample_protocol\<lparr>peer := \<lparr>network_id = 1, sent = [([29], [195, 130, 1, 2])]\<rparr>\<rparr>))
           = sent (peer sample_protocol) @ [(header, body)]
         \<and> header_cmd_id header = cmd_id_offset sample_protocol + 13)
   \<and> NewBlock \<in> set commands
   \<and> encode sample_codec NewBlock (cmd_id_offset sample_protocol)
        (PyDict [(''block'', PyTuple [PyObj BlockHeader [9], PyTuple [], PyTuple []]),
                 (''total_difficulty'', PyInt 5)])
        = Inr ([23], [198, 196, 193, 9, 192, 192, 5])
   \<and> header_cmd_id [23] = cmd_id_offset sample_protocol + cmd_id NewBlock"
proof -
  have s: "send_get_node_data sample_codec sample_protocol [[1, 2]]
     = Inr (sample_protocol\<lparr>peer := \<lparr>network_id = 1, sent = [([29], [195, 130, 1, 2])]\<rparr>\<rparr>)"
    by code_simp
  have m: "NewBlock \<in> set commands"
    by (simp add: commands_def)
  have e: "encode sample_codec NewBlock (cmd_id_offset sample_protocol)
        (PyDict [(''block'', PyTuple [PyObj BlockHeader [9], PyTuple [], PyTuple []]),
                 (''total_difficulty'', PyInt 5)])
        = Inr ([23], [198, 196, 193, 9, 192, 192, 5])"
    by code_simp
  note t = C6_absolute_command_id [where D = sample_codec and self = sample_protocol
      and head_info = sample_head and transactions = "[]" and b = "BlockNumber 0"
      and max_headers = 0 and skip = 0 and reverse = False and headers = "[]"
      and block_hashes = "[]" and blocks = "[]" and node_hashes = "[[1, 2]]" and nodes = "[]"
      and receipt_hashes = "[]" and receipts = "[]"]
  from t s m e show ?thesis by blast
qed

text \<open>
  C5: for every chain head, the message \<open>send_handshake\<close> sends is a \<open>Status\<close> message:
  its header carries the connection's offset plus 0 and its body decodes to the five
  fields, in the order of the \<open>Status\<close> structure: the protocol's version (63), the peer's
  network identifier, and the head's total difficulty, block hash and genesis hash.  The
  message is sent whenever the network identifier and the total difficulty are unsigned
  (below \<open>2^256\<close>), the two hashes are byte strings shorter than \<open>2^32\<close> and the offset is
  unsigned.
\<close>

theorem C5_handshake_status:
  "(\<forall>self'. send_handshake D self head_info = Inr self' \<longrightarrow>
      (\<exists>header body.
         self' = send self header body
         \<and> sent (peer self') = sent (peer self) @ [(header, body)]
         \<and> header_cmd_id header = cmd_id_offset self + cmd_id Status
         \<and> decode D Status body =
             Inr (PyDict [(''protocol_version'', PyInt version),
                          (''network_id'', PyInt (network_id (peer self))),
                          (''td'', PyInt (total_difficulty head_info)),
                          (''best_hash'', PyBytes (block_hash head_info)),
                          (''genesis_hash'', PyBytes (genesis_hash head_info))])))
   \<and> version = 63
   \<and> (0 \<le> network_id (peer self) \<and> network_id (peer self) < 2 ^ 256
        \<and> 0 \<le> total_difficulty head_info \<and> total_difficulty head_info < 2 ^ 256
        \<and> length (block_hash head_info) < 2 ^ 32 \<and> length (genesis_hash head_info) < 2 ^ 32
        \<and> 0 \<le> cmd_id_offset self
      \<longrightarrow> (\<exists>self'. send_handshake D self head_info = Inr self'))"
proof (intro conjI allI impI)
  fix self'
  assume "send_handshake D self head_info = Inr self'"
  then have "(case encode D Status (cmd_id_offset self)
             (status_message (network_id (peer self)) head_info) of
        Inl e \<Rightarrow> Inl e
      | Inr (header, body) \<Rightarrow> Inr (send self header body)) = Inr self'"
    by (simp only: send_handshake_eq)
  from send_result_Inr [OF this] obtain header body where
    e: "encode D Status (cmd_id_offset self)
          (status_message (network_id (peer self)) head_info) = Inr (header, body)"
    and s: "self' = send self header body"
      "sent (peer self') = sent (peer self) @ [(header, body)]"
      "header_cmd_id header = cmd_id_offset self + cmd_id Status"
    by blast
  have "decode D Status body = Inr (status_message (network_id (peer self)) head_info)"
    using e by (rule status_decoded)
  then have "decode D Status body =
             Inr (PyDict [(''protocol_version'', PyInt version),
                          (''network_id'', PyInt (network_id (peer self))),
                          (''td'', PyInt (total_difficulty head_info)),
                          (''best_hash'', PyBytes (block_hash head_info)),
                          (''genesis_hash'', PyBytes (genesis_hash head_info))])"
    by (simp add: status_message_def version_def)
  with s show "\<exists>header body.
         self' = send self header body
         \<and> sent (peer self') = sent (peer self) @ [(header, body)]
         \<and> header_cmd_id header = cmd_id_offset self + cmd_id Status
         \<and> decode D Status body =
             Inr (PyDict [(''protocol_version'', PyInt version),
                          (''network_id'', PyInt (network_id (peer self))),
                          (''td'', PyInt (total_difficulty head_info)),
                          (''best_hash'', PyBytes (block_hash head_info)),
                          (''genesis_hash'', PyBytes (genesis_hash head_info))])"
    by blast
next
  show "version = 63" by (simp add: version_def)
next
  assume "0 \<le> network_id (peer self) \<and> network_id (peer self) < 2 ^ 256
        \<and> 0 \<le> total_difficulty head_info \<and> total_difficulty head_info < 2 ^ 256
        \<and> length (block_hash head_info) < 2 ^ 32 \<and> length (genesis_hash head_info) < 2 ^ 32
        \<and> 0 \<le> cmd_id_offset self"
  then obtain h b where "encode D Status (cmd_id_offset self)
      (status_message (network_id (peer self)) head_info) = Inr (h, b)"
    using status_encode_ok [of "network_id (peer self)" head_info "cmd_id_offset self" D]
    by blast
  then show "\<exists>self'. send_handshake D self head_info = Inr self'"
    by (simp add: send_handshake_eq)
qed

theorem C5_handshake_status_witness:
  "0 \<le> network_id (peer sample_protocol) \<and> network_id (peer sample_protocol) < 2 ^ 256
   \<and> 0 \<le> total_difficulty sample_head \<and> total_difficulty sample_head < 2 ^ 256
   \<and> length (block_hash sample_head) < 2 ^ 32 \<and> length (genesis_hash sample_head) < 2 ^ 32
   \<and> 0 \<le> cmd_id_offset sample_protocol
   \<and> (\<exists>self' header body.
         send_handshake sample_codec sample_protocol sample_head = Inr self'
         \<and> self' = send sample_protocol header body
         \<and> header_cmd_id header = cmd_id_offset sample_protocol + cmd_id Status
         \<and> decode sample_codec Status body =
             Inr (PyDict [(''protocol_version'', PyInt version),
                          (''network_id'', PyInt (network_id (peer sample_protocol))),
                          (''td'', PyInt (total_difficulty sample_head)),
                          (''best_hash'', PyBytes (block_hash sample_head)),
                          (''genesis_hash'', PyBytes (genesis_hash sample_head))]))"
proof -
  have h: "0 \<le> network_id (peer sample_protocol) \<and> network_id (peer sample_protocol) < 2 ^ 256
   \<and> 0 \<le> total_difficulty sample_head \<and> total_difficulty sample_head < 2 ^ 256
   \<and> length (block_hash sample_head) < 2 ^ 32 \<and> length (genesis_hash sample_head) < 2 ^ 32
   \<and> 0 \<le> cmd_id_offset sample_protocol"
    by (simp add: sample_protocol_def sample_head_def)
  from C5_handshake_status [of sample_codec sample_protocol sample_head] h
  show ?thesis by blast
qed

text \<open>
  C8: \<open>BlockHeaders.extract_headers\<close> turns the decoded payload into a tuple of the same
  header values in the same order.  It does so for a Python list and for a tuple, and every
  payload that decodes with the structure of \<open>BlockHeaders\<close> is a sequence of block
  header values, of which \<open>extract_headers\<close> returns the tuple.
\<close>

theorem C8_extract_headers:
  "extract_headers D (PyList hs) = Inr (PyTuple hs)
   \<and> extract_headers D (PyTuple hs) = Inr (PyTuple hs)
   \<and> (\<forall>msg. decode D BlockHeaders body = Inr msg \<longrightarrow>
        (\<exists>headers. is_sequence msg = Some (map (PyObj BlockHeader) headers)
           \<and> extract_headers D msg = Inr (PyTuple (map (PyObj BlockHeader) headers))))"
proof (intro conjI allI impI)
  fix msg
  assume "decode D BlockHeaders body = Inr msg"
  then obtain headers where "msg = PyTuple (map (PyObj BlockHeader) headers)"
    using decode_BlockHeaders_tuple by blast
  then show "\<exists>headers. is_sequence msg = Some (map (PyObj BlockHeader) headers)
           \<and> extract_headers D msg = Inr (PyTuple (map (PyObj BlockHeader) headers))"
    by (intro exI [of _ headers]) (simp add: extract_headers_def)
qed (simp_all add: extract_headers_def)

theorem C8_extract_headers_witness:
  "decode sample_codec BlockHeaders [196, 193, 1, 193, 2]
     = Inr (PyTuple [PyObj BlockHeader [1], PyObj BlockHeader [2]])
   \<and> (\<exists>headers.
         is_sequence (PyTuple [PyObj BlockHeader [1], PyObj BlockHeader [2]])
           = Some (map (PyObj BlockHeader) headers)
         \<and> extract_headers sample_codec (PyTuple [PyObj BlockHeader [1], PyObj BlockHeader [2]])
           = Inr (PyTuple (map (PyObj BlockHeader) headers)))
   \<and> extract_headers sample_codec (PyList [PyObj BlockHeader [1], PyObj BlockHeader [2]])
       = Inr (PyTuple [PyObj BlockHeader [1], PyObj BlockHeader [2]])"
proof -
  have d: "decode sample_codec BlockHeaders [196, 193, 1, 193, 2]
     = Inr (PyTuple [PyObj BlockHeader [1], PyObj BlockHeader [2]])"
    by code_simp
  from C8_extract_headers [of sample_codec "[PyObj BlockHeader [1], PyObj BlockHeader [2]]"
      "[196, 193, 1, 193, 2]"] d
  show ?thesis by blast
qed

text \<open>
  C4: the structure of \<open>GetBlockHeaders\<close> is the list of exactly four fields, in the order
  \<open>block_number_or_hash\<close> (the number-or-hash kind), \<open>max_headers\<close> and \<open>skip\<close> (unsigned
  integers), \<open>reverse\<close> (boolean).  The number-or-hash kind takes an unsigned integer or a
  byte string of 32 bytes.  Encoding the value (42, 10, 0, false) gives the body
  \<open>c4 2a 0a 80 80\<close>, and decoding that body gives the same four values in the same order.
\<close>

theorem C4_get_block_headers_fields:
  "structure GetBlockHeaders =
     FieldList [(''block_number_or_hash'', HashOrNumber), (''max_headers'', big_endian_int),
                (''skip'', big_endian_int), (''reverse'', boolean)]
   \<and> ((\<exists>it. serialize D HashOrNumber (PyInt n) = Inr it) \<longleftrightarrow> 0 \<le> n)
   \<and> ((\<exists>it. serialize D HashOrNumber (PyBytes h) = Inr it) \<longleftrightarrow> length h = 32)
   \<and> ((\<exists>it. serialize D big_endian_int (PyInt n) = Inr it) \<longleftrightarrow> 0 \<le> n)
   \<and> (\<exists>it. serialize D boolean (PyBool r) = Inr it)
   \<and> encode D GetBlockHeaders 0
        (PyDict [(''block_number_or_hash'', PyInt 42), (''max_headers'', PyInt 10),
                 (''skip'', PyInt 0), (''reverse'', PyBool False)])
       = Inr ([3], [196, 42, 10, 128, 128])
   \<and> decode D GetBlockHeaders [196, 42, 10, 128, 128]
       = Inr (PyDict [(''block_number_or_hash'', PyInt 42), (''max_headers'', PyInt 10),
                      (''skip'', PyInt 0), (''reverse'', PyBool False)])"
proof -
  let ?v = "get_block_headers_data (BlockNumber 42) 10 0 False :: 'a pyval"
  have v: "?v = PyDict [(''block_number_or_hash'', PyInt 42), (''max_headers'', PyInt 10),
                 (''skip'', PyInt 0), (''reverse'', PyBool False)]"
    by (simp add: get_block_headers_data_def)
  have e: "encode D GetBlockHeaders 0
        (PyDict [(''block_number_or_hash'', PyInt 42), (''max_headers'', PyInt 10),
                 (''skip'', PyInt 0), (''reverse'', PyBool False)])
       = Inr ([3], [196, 42, 10, 128, 128])"
    by code_simp
  have b: "valid_block_identifier (BlockNumber 42)"
    by (simp add: valid_block_identifier_def)
  have c: "conforms_payload D GetBlockHeaders ?v" "in_canonical_form GetBlockHeaders ?v"
    using b by (simp_all add: get_block_headers_conforms)
  have "decode D GetBlockHeaders [196, 42, 10, 128, 128] = Inr (canonical GetBlockHeaders ?v)"
    using c(1) e [folded v] by (rule command_roundtrip)
  also have "canonical GetBlockHeaders ?v = ?v"
    using c(2) by (rule canonical_fixed)
  finally have d: "decode D GetBlockHeaders [196, 42, 10, 128, 128]
       = Inr (PyDict [(''block_number_or_hash'', PyInt 42), (''max_headers'', PyInt 10),
                      (''skip'', PyInt 0), (''reverse'', PyBool False)])"
    by (simp only: v)
  have k: "(\<exists>it. serialize D HashOrNumber (PyInt n) = Inr it) \<longleftrightarrow> 0 \<le> n"
    "(\<exists>it. serialize D HashOrNumber (PyBytes h) = Inr it) \<longleftrightarrow> length h = 32"
    "(\<exists>it. serialize D big_endian_int (PyInt n) = Inr it) \<longleftrightarrow> 0 \<le> n"
    "\<exists>it. serialize D boolean (PyBool r) = Inr it"
    by (simp_all add: HashOrNumber_serialize_def)
  show ?thesis
    using e d k by simp
qed

end
